theory Spec2Isabelle
  imports Main "HOL-Library.Word"
begin

unbundle bit_operations_syntax

section \<open>Machine types\<close>

text \<open>
  The target is a 64-bit platform: \<^verbatim>\<open>size_t\<close> is an unsigned 64-bit integer whose
  arithmetic wraps around, a \<^verbatim>\<open>char*\<close> is a 64-bit address and
  \<^verbatim>\<open>sizeof(void*)\<close> is 8.
\<close>

type_synonym size_t = "64 word"
type_synonym char_ptr = "64 word"

definition sizeof_void_ptr :: size_t where
  "sizeof_void_ptr = 8"

text \<open>
  A call ends with a pointer, or it does not return: the Underlying Arena cannot obtain
  memory (\<^verbatim>\<open>std::bad_alloc\<close> passes through this layer), or an \<^verbatim>\<open>assert\<close>
  of the source fails.
\<close>

datatype error = BadAlloc | AssertionFailed

section \<open>The Underlying Arena\<close>

text \<open>
  \<^verbatim>\<open>memory/arena.h\<close> is not among the sources, so the arena is a parameter: a state
  type \<open>'a\<close> and the member functions that \<^verbatim>\<open>ConcurrentArena\<close> calls on
  \<^verbatim>\<open>arena\<close>. The two allocation functions return the pointer and the arena after
  the call, or \<open>None\<close> when the arena cannot serve the request. The logger and the
  allocation tracker are passive sinks and are left out.
\<close>

record 'a arena_iface =
  arena_ctor :: "size_t \<Rightarrow> size_t \<Rightarrow> 'a"
  arena_Allocate :: "size_t \<Rightarrow> 'a \<Rightarrow> (char_ptr \<times> 'a) option"
  arena_AllocateAligned :: "size_t \<Rightarrow> size_t \<Rightarrow> 'a \<Rightarrow> (char_ptr \<times> 'a) option"
  arena_AllocatedAndUnused :: "'a \<Rightarrow> size_t"
  arena_ApproximateMemoryUsage :: "'a \<Rightarrow> size_t"
  arena_MemoryAllocatedBytes :: "'a \<Rightarrow> size_t"
  arena_IrregularBlockNum :: "'a \<Rightarrow> size_t"
  arena_BlockSize :: "'a \<Rightarrow> size_t"
  arena_IsInInlineBlock :: "'a \<Rightarrow> bool"

section \<open>The state of a ConcurrentArena\<close>

text \<open>
  \<^verbatim>\<open>struct Shard\<close>: the padding and the mutex hold no data of the model. A
  member \<^verbatim>\<open>x_\<close> of the source is the field \<open>x\<close> here, since no name of
  the logic may end in an underscore.
\<close>

record Shard =
  free_begin :: char_ptr
  allocated_and_unused :: size_t

definition Shard_ctor :: Shard where
  "Shard_ctor = \<lparr>free_begin = 0, allocated_and_unused = 0\<rparr>"

record 'a ConcurrentArena =
  shard_block_size :: size_t
  shards :: "Shard list"
  arena :: 'a
  arena_allocated_and_unused :: size_t
  memory_allocated_bytes :: size_t
  irregular_block_num :: size_t

text \<open>
  Modelled from the spec: \<^verbatim>\<open>util/core_local.h\<close> is not among the sources. The
  Per-Core Slot Array owns \<open>N\<close> slots, \<open>N\<close> a power of two (\<^verbatim>\<open>1 << size_shift_\<close>
  in the comment of \<^verbatim>\<open>AllocateImpl\<close>); \<open>Size\<close> is the slot count,
  \<open>AccessAtCore\<close> the slot at an index, and \<open>AccessElementAndIndex\<close> the slot of the
  current execution context together with its index. A slot pointer is the slot's
  index in the list. The execution context is the number \<open>cpu\<close> of the core the
  thread runs on; it is reduced modulo the slot count, so that every index below
  \<open>Size\<close> and no other can be reported.
\<close>

definition CoreLocalArray_ctor :: "nat \<Rightarrow> Shard list" where
  "CoreLocalArray_ctor size_shift = replicate (2 ^ size_shift) Shard_ctor"

definition Size :: "Shard list \<Rightarrow> size_t" where
  "Size slots = of_nat (length slots)"

definition AccessAtCore :: "Shard list \<Rightarrow> nat \<Rightarrow> Shard" where
  "AccessAtCore slots core_idx = slots ! core_idx"

definition AccessElementAndIndex :: "Shard list \<Rightarrow> nat \<Rightarrow> nat \<times> size_t" where
  "AccessElementAndIndex slots cpu =
     (cpu mod length slots, of_nat (cpu mod length slots))"

section \<open>Construction and statistics\<close>

definition kMaxShardBlockSize :: size_t where
  "kMaxShardBlockSize = 128 * 1024"

definition Fixup :: "'a arena_iface \<Rightarrow> 'a ConcurrentArena \<Rightarrow> 'a ConcurrentArena" where
  "Fixup A st =
     st\<lparr>arena_allocated_and_unused := arena_AllocatedAndUnused A (arena st),
        memory_allocated_bytes := arena_MemoryAllocatedBytes A (arena st),
        irregular_block_num := arena_IrregularBlockNum A (arena st)\<rparr>"

text \<open>
  The constructor. \<open>size_shift\<close> is what the default constructor of the slot array
  derives from the hardware concurrency.
\<close>

definition ConcurrentArena_ctor ::
  "'a arena_iface \<Rightarrow> nat \<Rightarrow> size_t \<Rightarrow> size_t \<Rightarrow> 'a ConcurrentArena" where
  "ConcurrentArena_ctor A size_shift block_size huge_page_size =
     Fixup A
       \<lparr>shard_block_size = min kMaxShardBlockSize (block_size div 8),
        shards = CoreLocalArray_ctor size_shift,
        arena = arena_ctor A block_size huge_page_size,
        arena_allocated_and_unused = 0,
        memory_allocated_bytes = 0,
        irregular_block_num = 0\<rparr>"

section \<open>Locks and scheduling\<close>

text \<open>
  A call runs atomically in the model: the state of a shard is read and written only
  under that shard's mutex, the arena and the cached counters only under
  \<^verbatim>\<open>arena_mutex_\<close>, and the arena's critical section lies inside the shard's. What
  other threads do to a call is the outcome of its two \<^verbatim>\<open>try_lock\<close>s and the core
  it runs on; these are inputs. Every operation on a mutex is recorded, in program
  order; the unlocks are those of the destructors of the lock guards.
\<close>

record sched =
  arena_try_lock :: bool
  shard_try_lock :: bool
  cur_cpu :: nat

datatype lock_event =
    ArenaTryLock bool
  | ArenaLock
  | ArenaUnlock
  | ShardTryLock nat bool
  | ShardLock nat
  | ShardUnlock nat

fun is_shard_event :: "lock_event \<Rightarrow> bool" where
  "is_shard_event (ShardTryLock i b) = True"
| "is_shard_event (ShardLock i) = True"
| "is_shard_event (ShardUnlock i) = True"
| "is_shard_event e = False"

fun is_arena_try_lock :: "lock_event \<Rightarrow> bool" where
  "is_arena_try_lock (ArenaTryLock b) = True"
| "is_arena_try_lock e = False"

text \<open>
  The blocking \<^verbatim>\<open>lock\<close> on the mutex of a shard (line 161). It is only reached
  after \<^verbatim>\<open>Repick\<close> (line 160).
\<close>

fun is_shard_lock :: "lock_event \<Rightarrow> bool" where
  "is_shard_lock (ShardLock i) = True"
| "is_shard_lock e = False"

section \<open>Allocation\<close>

type_synonym 'a func = "'a \<Rightarrow> (char_ptr \<times> 'a) option"

type_synonym 'a result = "lock_event list \<times> (error + char_ptr \<times> size_t \<times> 'a ConcurrentArena)"

text \<open>
  \<^verbatim>\<open>auto rv = func(); Fixup(); return rv;\<close> under the arena mutex, as the direct path
  and the inline-block shortcut have it. \<open>cpu\<close> is the value the call leaves in
  \<^verbatim>\<open>tls_cpuid\<close>.
\<close>

definition call_func ::
  "'a arena_iface \<Rightarrow> 'a func \<Rightarrow> size_t \<Rightarrow> 'a ConcurrentArena \<Rightarrow>
   error + char_ptr \<times> size_t \<times> 'a ConcurrentArena" where
  "call_func A func cpu st =
     (case func (arena st) of
        None \<Rightarrow> Inl BadAlloc
      | Some (rv, a) \<Rightarrow> Inr (rv, cpu, Fixup A (st\<lparr>arena := a\<rparr>)))"

text \<open>\<^verbatim>\<open>Repick\<close> returns the slot and the new value of \<^verbatim>\<open>tls_cpuid\<close>.\<close>

definition Repick :: "'a ConcurrentArena \<Rightarrow> nat \<Rightarrow> nat \<times> size_t" where
  "Repick st cpu =
     (let shard_and_index = AccessElementAndIndex (shards st) cpu
      in (fst shard_and_index, snd shard_and_index OR Size (shards st)))"

text \<open>Lines 196 to 211: the store of the new capacity and the choice of the end.\<close>

definition bump :: "Shard \<Rightarrow> size_t \<Rightarrow> size_t \<Rightarrow> char_ptr \<times> Shard" where
  "bump s avail bytes =
     (let s1 = s\<lparr>allocated_and_unused := avail - bytes\<rparr>
      in if bytes mod sizeof_void_ptr = 0
         then (free_begin s1, s1\<lparr>free_begin := free_begin s1 + bytes\<rparr>)
         else (free_begin s1 + avail - bytes, s1))"

text \<open>Lines 156 to 162: the shard of the thread, or the repicked one.\<close>

definition pick_shard ::
  "sched \<Rightarrow> size_t \<Rightarrow> 'a ConcurrentArena \<Rightarrow> nat \<times> size_t \<times> lock_event list" where
  "pick_shard sc cpu st =
     (let i = unat (cpu AND (Size (shards st) - 1))
      in if shard_try_lock sc then (i, cpu, [ShardTryLock i True])
         else (let (j, cpu') = Repick st (cur_cpu sc)
               in (j, cpu', [ShardTryLock i False, ShardLock j])))"

text \<open>Lines 190 to 192: the size of a new window.\<close>

definition window_size :: "size_t \<Rightarrow> size_t \<Rightarrow> size_t" where
  "window_size exact sbs =
     (if exact \<ge> sbs div 2 \<and> exact < sbs * 2 then exact else sbs)"

text \<open>Lines 153 to 211: the shard path.\<close>

definition shard_path ::
  "'a arena_iface \<Rightarrow> sched \<Rightarrow> size_t \<Rightarrow> 'a func \<Rightarrow> size_t \<Rightarrow> 'a ConcurrentArena \<Rightarrow> 'a result" where
  "shard_path A sc bytes func cpu st =
     (let (j, cpu', evs) = pick_shard sc cpu st;
          s = AccessAtCore (shards st) j;
          avail = allocated_and_unused s
      in if avail < bytes then
           (let exact = arena_allocated_and_unused st
            in if exact \<noteq> arena_AllocatedAndUnused A (arena st)
               then (evs @ [ArenaLock], Inl AssertionFailed)
               else if exact \<ge> bytes \<and> arena_IsInInlineBlock A (arena st)
               then (evs @ [ArenaLock, ArenaUnlock, ShardUnlock j], call_func A func cpu' st)
               else (let avail' = window_size exact (shard_block_size st)
                     in case arena_AllocateAligned A avail' 0 (arena st) of
                          None \<Rightarrow> (evs @ [ArenaLock, ArenaUnlock, ShardUnlock j], Inl BadAlloc)
                        | Some (p, a) \<Rightarrow>
                            (let st1 = Fixup A (st\<lparr>arena := a\<rparr>);
                                 (rv, s') = bump (s\<lparr>free_begin := p\<rparr>) avail' bytes
                             in (evs @ [ArenaLock, ArenaUnlock, ShardUnlock j],
                                 Inr (rv, cpu', st1\<lparr>shards := (shards st1)[j := s']\<rparr>)))))
         else (let (rv, s') = bump s avail bytes
               in (evs @ [ShardUnlock j],
                   Inr (rv, cpu', st\<lparr>shards := (shards st)[j := s']\<rparr>))))"

text \<open>
  \<^verbatim>\<open>AllocateImpl\<close>. \<open>tls_cpuid\<close> is the thread-local variable of the calling
  thread, passed in and returned. The \<^verbatim>\<open>||\<close> and \<^verbatim>\<open>&&\<close> of line 137
  evaluate from the left and stop early, so \<^verbatim>\<open>try_lock\<close> runs only when the tests
  before it let it.
\<close>

definition AllocateImpl ::
  "'a arena_iface \<Rightarrow> sched \<Rightarrow> size_t \<Rightarrow> bool \<Rightarrow> 'a func \<Rightarrow> size_t \<Rightarrow> 'a ConcurrentArena \<Rightarrow> 'a result" where
  "AllocateImpl A sc bytes force_arena func tls_cpuid st =
     (if bytes > shard_block_size st div 4 \<or> force_arena
      then ([ArenaLock, ArenaUnlock], call_func A func tls_cpuid st)
      else if tls_cpuid = 0 \<and> allocated_and_unused (AccessAtCore (shards st) 0) = 0
      then (if arena_try_lock sc
            then ([ArenaTryLock True, ArenaUnlock], call_func A func tls_cpuid st)
            else (let (evs, r) = shard_path A sc bytes func tls_cpuid st
                  in (ArenaTryLock False # evs, r)))
      else shard_path A sc bytes func tls_cpuid st)"

definition Allocate ::
  "'a arena_iface \<Rightarrow> sched \<Rightarrow> size_t \<Rightarrow> size_t \<Rightarrow> 'a ConcurrentArena \<Rightarrow> 'a result" where
  "Allocate A sc bytes tls_cpuid st =
     AllocateImpl A sc bytes False (arena_Allocate A bytes) tls_cpuid st"

definition rounded_up :: "size_t \<Rightarrow> size_t" where
  "rounded_up bytes = ((bytes - 1) OR (sizeof_void_ptr - 1)) + 1"

definition AllocateAligned ::
  "'a arena_iface \<Rightarrow> sched \<Rightarrow> size_t \<Rightarrow> size_t \<Rightarrow> size_t \<Rightarrow> 'a ConcurrentArena \<Rightarrow> 'a result" where
  "AllocateAligned A sc bytes huge_page_size tls_cpuid st =
     (if rounded_up bytes \<ge> bytes \<and> rounded_up bytes < bytes + sizeof_void_ptr \<and>
         rounded_up bytes mod sizeof_void_ptr = 0
      then AllocateImpl A sc (rounded_up bytes) (huge_page_size \<noteq> 0)
             (arena_AllocateAligned A (rounded_up bytes) huge_page_size) tls_cpuid st
      else ([], Inl AssertionFailed))"

section \<open>Queries\<close>

text \<open>
  The query member functions are \<^verbatim>\<open>const\<close>. To state that they change nothing,
  each returns the operations it performs on mutexes, its value and the state it
  leaves.
\<close>

type_synonym 'a query = "lock_event list \<times> size_t \<times> 'a ConcurrentArena"

definition ShardAllocatedAndUnused :: "'a ConcurrentArena \<Rightarrow> size_t" where
  "ShardAllocatedAndUnused st =
     fold (\<lambda>i total. total + allocated_and_unused (AccessAtCore (shards st) i))
       [0..<unat (Size (shards st))] 0"

definition ApproximateMemoryUsage :: "'a arena_iface \<Rightarrow> 'a ConcurrentArena \<Rightarrow> 'a query" where
  "ApproximateMemoryUsage A st =
     ([ArenaLock, ArenaUnlock],
      arena_ApproximateMemoryUsage A (arena st) - ShardAllocatedAndUnused st, st)"

definition MemoryAllocatedBytes :: "'a ConcurrentArena \<Rightarrow> 'a query" where
  "MemoryAllocatedBytes st = ([], memory_allocated_bytes st, st)"

definition AllocatedAndUnused :: "'a ConcurrentArena \<Rightarrow> 'a query" where
  "AllocatedAndUnused st =
     ([], arena_allocated_and_unused st + ShardAllocatedAndUnused st, st)"

definition IrregularBlockNum :: "'a ConcurrentArena \<Rightarrow> 'a query" where
  "IrregularBlockNum st = ([], irregular_block_num st, st)"

definition BlockSize :: "'a arena_iface \<Rightarrow> 'a ConcurrentArena \<Rightarrow> 'a query" where
  "BlockSize A st = ([], arena_BlockSize A (arena st), st)"

section \<open>Sequences of calls\<close>

text \<open>
  A request is a call of one of the two allocation functions by a thread, with the
  scheduling the call meets. \<^verbatim>\<open>tls_cpuid\<close> is one variable for each thread, 0 in a
  thread that has not run \<^verbatim>\<open>Repick\<close>. \<open>run\<close> performs the requests one after
  the other and returns, for each, the pointer and the size of the block handed out
  (the rounded size for \<^verbatim>\<open>AllocateAligned\<close>).
\<close>

datatype call = CallAllocate size_t | CallAllocateAligned size_t size_t

record request =
  req_thread :: nat
  req_call :: call
  req_sched :: sched

fun served_bytes :: "call \<Rightarrow> size_t" where
  "served_bytes (CallAllocate bytes) = bytes"
| "served_bytes (CallAllocateAligned bytes huge_page_size) = rounded_up bytes"

fun requested_bytes :: "call \<Rightarrow> size_t" where
  "requested_bytes (CallAllocate bytes) = bytes"
| "requested_bytes (CallAllocateAligned bytes huge_page_size) = bytes"

fun do_call ::
  "'a arena_iface \<Rightarrow> sched \<Rightarrow> call \<Rightarrow> size_t \<Rightarrow> 'a ConcurrentArena \<Rightarrow> 'a result" where
  "do_call A sc (CallAllocate bytes) tls_cpuid st = Allocate A sc bytes tls_cpuid st"
| "do_call A sc (CallAllocateAligned bytes huge_page_size) tls_cpuid st =
     AllocateAligned A sc bytes huge_page_size tls_cpuid st"

fun run ::
  "'a arena_iface \<Rightarrow> request list \<Rightarrow> (nat \<Rightarrow> size_t) \<Rightarrow> 'a ConcurrentArena \<Rightarrow>
   error + (char_ptr \<times> size_t) list \<times> (nat \<Rightarrow> size_t) \<times> 'a ConcurrentArena" where
  "run A [] tls st = Inr ([], tls, st)"
| "run A (r # rs) tls st =
     (case snd (do_call A (req_sched r) (req_call r) (tls (req_thread r)) st) of
        Inl e \<Rightarrow> Inl e
      | Inr (rv, cpu, st') \<Rightarrow>
          (case run A rs (tls(req_thread r := cpu)) st' of
             Inl e \<Rightarrow> Inl e
           | Inr (blocks, tls', st'') \<Rightarrow>
               Inr ((rv, served_bytes (req_call r)) # blocks, tls', st'')))"

section \<open>Well-formed states and byte ranges\<close>

text \<open>The slot count is a power of two that a \<^verbatim>\<open>size_t\<close> holds.\<close>

definition slots_ok :: "Shard list \<Rightarrow> bool" where
  "slots_ok slots = (\<exists>k\<in>{..<64}. length slots = 2 ^ k)"

text \<open>The addresses of the block of \<open>n\<close> bytes at \<open>p\<close>.\<close>

definition byte_range :: "char_ptr \<Rightarrow> size_t \<Rightarrow> char_ptr set" where
  "byte_range p n = (\<lambda>k. p + of_nat k) ` {..<unat n}"

fun disjoint_blocks :: "(char_ptr \<times> size_t) list \<Rightarrow> bool" where
  "disjoint_blocks [] = True"
| "disjoint_blocks ((p, n) # bs) =
     (list_all (\<lambda>(q, m). byte_range p n \<inter> byte_range q m = {}) bs \<and> disjoint_blocks bs)"

definition word_aligned :: "char_ptr \<Rightarrow> bool" where
  "word_aligned p = (p mod sizeof_void_ptr = 0)"

text \<open>
  The requests of a sequence stay within the inline block: each finds the arena inside
  its first block, with at least as many unused bytes as it asks for.
\<close>

fun stays_inline ::
  "'a arena_iface \<Rightarrow> request list \<Rightarrow> (nat \<Rightarrow> size_t) \<Rightarrow> 'a ConcurrentArena \<Rightarrow> bool" where
  "stays_inline A [] tls st = True"
| "stays_inline A (r # rs) tls st =
     (arena_IsInInlineBlock A (arena st) \<and>
      served_bytes (req_call r) \<le> arena_AllocatedAndUnused A (arena st) \<and>
      (case snd (do_call A (req_sched r) (req_call r) (tls (req_thread r)) st) of
         Inl e \<Rightarrow> True
       | Inr (rv, cpu, st') \<Rightarrow> stays_inline A rs (tls(req_thread r := cpu)) st'))"

text \<open>The cached counter that line 175 asserts to be that of the arena.\<close>

definition cached_ok :: "'a arena_iface \<Rightarrow> 'a ConcurrentArena \<Rightarrow> bool" where
  "cached_ok A st = (arena_allocated_and_unused st = arena_AllocatedAndUnused A (arena st))"

section \<open>What is assumed of the arena, and the invariants\<close>

text \<open>
  What is taken for granted of the arena where alignment matters: its aligned
  allocation returns word-aligned pointers. And the invariant of the shards: every
  free-pointer is word-aligned.
\<close>

definition arena_aligned :: "'a arena_iface \<Rightarrow> bool" where
  "arena_aligned A =
     (\<forall>n h a p a'. arena_AllocateAligned A n h a = Some (p, a') \<longrightarrow> word_aligned p)"

definition shards_aligned :: "'a ConcurrentArena \<Rightarrow> bool" where
  "shards_aligned st = list_all (\<lambda>s. word_aligned (free_begin s)) (shards st)"

text \<open>
  What is taken for granted of the arena where aliasing matters: a set \<open>F a\<close> of
  bytes, those the arena in state \<open>a\<close> has given out, such that every block it
  returns is disjoint from that set and is added to it.
\<close>

definition arena_sound :: "'a arena_iface \<Rightarrow> ('a \<Rightarrow> char_ptr set) \<Rightarrow> bool" where
  "arena_sound A F =
     (\<forall>n h a p a'.
        (arena_Allocate A n a = Some (p, a') \<longrightarrow>
           byte_range p n \<inter> F a = {} \<and> F a \<union> byte_range p n \<subseteq> F a') \<and>
        (arena_AllocateAligned A n h a = Some (p, a') \<longrightarrow>
           byte_range p n \<inter> F a = {} \<and> F a \<union> byte_range p n \<subseteq> F a'))"

text \<open>
  The window of a shard: the bytes from its free-pointer on that it may still hand
  out. The invariant behind the absence of aliasing, for the set \<open>G\<close> of bytes
  handed out so far: the arena has given out \<open>G\<close> and every window, no window meets
  \<open>G\<close>, and no two windows meet.
\<close>

definition window :: "Shard \<Rightarrow> char_ptr set" where
  "window s = byte_range (free_begin s) (allocated_and_unused s)"

definition no_aliasing ::
  "('a \<Rightarrow> char_ptr set) \<Rightarrow> 'a ConcurrentArena \<Rightarrow> char_ptr set \<Rightarrow> bool" where
  "no_aliasing F st G =
     (G \<subseteq> F (arena st) \<and>
      (\<forall>i<length (shards st). window (shards st ! i) \<subseteq> F (arena st) \<and>
                               window (shards st ! i) \<inter> G = {}) \<and>
      (\<forall>i<length (shards st). \<forall>j<length (shards st).
          i \<noteq> j \<longrightarrow> window (shards st ! i) \<inter> window (shards st ! j) = {}))"

text \<open>The bytes at the offsets from \<open>lo\<close> up to, not including, \<open>hi\<close> from \<open>p\<close>.\<close>

definition seg :: "char_ptr \<Rightarrow> nat \<Rightarrow> nat \<Rightarrow> char_ptr set" where
  "seg p lo hi = (\<lambda>k. p + of_nat k) ` {lo..<hi}"

section \<open>An arena to run the definitions on\<close>

text \<open>
  Modelled from the spec: \<^verbatim>\<open>memory/arena.h\<close> is not among the sources. The spec
  describes the Underlying Arena as a single-threaded bump allocator with aligned and
  unaligned allocation, usage counters and a predicate for being inside the first
  (inline) block. \<open>TestArena\<close> is such an allocator, as small as the interface
  allows: addresses grow, the inline block has 2048 bytes, and a request that does
  not fit the current block opens a new block of the block size, or of the size of
  the request when that is more. No theorem about \<^verbatim>\<open>ConcurrentArena\<close> depends
  on it; it instantiates them at concrete inputs.
\<close>

record test_arena =
  ta_next :: nat
  ta_unused :: nat
  ta_inline :: bool
  ta_block_size :: nat
  ta_allocated :: nat
  ta_irregular :: nat

definition ta_ctor :: "size_t \<Rightarrow> size_t \<Rightarrow> test_arena" where
  "ta_ctor block_size huge_page_size =
     \<lparr>ta_next = 4096, ta_unused = 2048, ta_inline = True, ta_block_size = unat block_size,
      ta_allocated = 2048, ta_irregular = 0\<rparr>"

definition ta_alloc :: "bool \<Rightarrow> size_t \<Rightarrow> test_arena \<Rightarrow> (char_ptr \<times> test_arena) option" where
  "ta_alloc aligned bytes a =
     (let n = unat bytes;
          start = (if aligned then (ta_next a + 7) div 8 * 8 else ta_next a);
          pad = start - ta_next a
      in if pad + n \<le> ta_unused a
         then (if start + n \<le> 2 ^ 64
               then Some (of_nat start,
                          a\<lparr>ta_next := start + n, ta_unused := ta_unused a - (pad + n)\<rparr>)
               else None)
         else (let size = max n (ta_block_size a);
                   start' = (ta_next a + ta_unused a + 7) div 8 * 8
               in if start' + size \<le> 2 ^ 64
                  then Some (of_nat start',
                             a\<lparr>ta_next := start' + n, ta_unused := size - n, ta_inline := False,
                               ta_allocated := ta_allocated a + size,
                               ta_irregular :=
                                 ta_irregular a + (if size = ta_block_size a then 0 else 1)\<rparr>)
                  else None))"

definition TestArena :: "test_arena arena_iface" where
  "TestArena =
     \<lparr>arena_ctor = ta_ctor,
      arena_Allocate = ta_alloc False,
      arena_AllocateAligned = (\<lambda>bytes huge_page_size. ta_alloc True bytes),
      arena_AllocatedAndUnused = (\<lambda>a. of_nat (ta_unused a)),
      arena_ApproximateMemoryUsage = (\<lambda>a. of_nat (ta_allocated a - ta_unused a)),
      arena_MemoryAllocatedBytes = (\<lambda>a. of_nat (ta_allocated a)),
      arena_IrregularBlockNum = (\<lambda>a. of_nat (ta_irregular a)),
      arena_BlockSize = (\<lambda>a. of_nat (ta_block_size a)),
      arena_IsInInlineBlock = ta_inline\<rparr>"

text \<open>A fresh instance with eight slots and block size 4096.\<close>

definition fresh :: "test_arena ConcurrentArena" where
  "fresh = ConcurrentArena_ctor TestArena 3 4096 0"

text \<open>
  A state in which slot 0 has 48 bytes left, and the arena has left the inline block
  and has 600 unused bytes in its current block.
\<close>

definition refill_state :: "test_arena ConcurrentArena" where
  "refill_state =
     fresh\<lparr>shards := (shards fresh)[0 := \<lparr>free_begin = 8192, allocated_and_unused = 48\<rparr>],
           arena := (arena fresh)\<lparr>ta_inline := False, ta_unused := 600\<rparr>,
           arena_allocated_and_unused := 600\<rparr>"

text \<open>The bytes \<open>TestArena\<close> has given out: all below its cursor.\<close>

definition ta_footprint :: "test_arena \<Rightarrow> char_ptr set" where
  "ta_footprint a = (\<lambda>k. of_nat k) ` {..<ta_next a}"

text \<open>
  Two small requests on a fresh instance: 13 bytes by thread 0, which finds the arena
  mutex busy, and 20 aligned bytes by thread 2; and the states they lead to.
\<close>

definition inline_run :: "request list" where
  "inline_run =
     [\<lparr>req_thread = 0, req_call = CallAllocate 13,
       req_sched = \<lparr>arena_try_lock = False, shard_try_lock = True, cur_cpu = 0\<rparr>\<rparr>,
      \<lparr>req_thread = 2, req_call = CallAllocateAligned 20 0,
       req_sched = \<lparr>arena_try_lock = True, shard_try_lock = True, cur_cpu = 2\<rparr>\<rparr>]"

definition after_13 :: "test_arena ConcurrentArena" where
  "after_13 = Fixup TestArena (fresh\<lparr>arena := \<lparr>ta_next = 4109, ta_unused = 2035, ta_inline = True,
         ta_block_size = 4096, ta_allocated = 2048, ta_irregular = 0\<rparr>\<rparr>)"

definition after_13_24 :: "test_arena ConcurrentArena" where
  "after_13_24 = Fixup TestArena (after_13\<lparr>arena := \<lparr>ta_next = 4136, ta_unused = 2008, ta_inline = True,
         ta_block_size = 4096, ta_allocated = 2048, ta_irregular = 0\<rparr>\<rparr>)"

text \<open>
  Three requests of one thread that finds the arena mutex busy, on a fresh instance:
  2000 bytes, more than a quarter of the shard block size; 64 bytes, for which slot
  0 gets a window; and 13 bytes, taken from the tail of that window. And the states
  they lead to.
\<close>

definition busy :: sched where
  "busy = \<lparr>arena_try_lock = False, shard_try_lock = True, cur_cpu = 0\<rparr>"

definition mixed_run :: "request list" where
  "mixed_run =
     [\<lparr>req_thread = 0, req_call = CallAllocate 2000, req_sched = busy\<rparr>,
      \<lparr>req_thread = 0, req_call = CallAllocate 64, req_sched = busy\<rparr>,
      \<lparr>req_thread = 0, req_call = CallAllocate 13, req_sched = busy\<rparr>]"

definition after_2000 :: "test_arena ConcurrentArena" where
  "after_2000 = Fixup TestArena (fresh\<lparr>arena := \<lparr>ta_next = 6096, ta_unused = 48, ta_inline = True,
         ta_block_size = 4096, ta_allocated = 2048, ta_irregular = 0\<rparr>\<rparr>)"

definition after_2000_64 :: "test_arena ConcurrentArena" where
  "after_2000_64 =
     (Fixup TestArena (after_2000\<lparr>arena := \<lparr>ta_next = 6656, ta_unused = 3584, ta_inline = False,
         ta_block_size = 4096, ta_allocated = 6144, ta_irregular = 0\<rparr>\<rparr>))
     \<lparr>shards := (shards after_2000)[0 := \<lparr>free_begin = 6208, allocated_and_unused = 448\<rparr>]\<rparr>"

definition after_2000_64_13 :: "test_arena ConcurrentArena" where
  "after_2000_64_13 =
     after_2000_64\<lparr>shards :=
       (shards after_2000_64)[0 := \<lparr>free_begin = 6208, allocated_and_unused = 435\<rparr>]\<rparr>"

section \<open>Rounding to the word size\<close>

lemma or7_word: "x OR (7::size_t) = x - (x AND 7) + 7"
  by (metis add_diff_cancel_left' diff_add_eq word_plus_and_or)

lemma and7_word: "(x::size_t) AND 7 = x mod 8"
  by (simp add: take_bit_eq_mask mask_eq_exp_minus_1 flip: take_bit_eq_mod [of 3 x, simplified])

lemma and7_unat: "unat ((x::size_t) AND 7) = unat x mod 8"
  by (simp add: and7_word unat_mod)

lemma unat_size_t_less: "unat (x::size_t) < 18446744073709551616"
  using unsigned_less [of x, where 'a=nat] by simp

lemma round_down_bound:
  fixes n :: nat
  assumes "n < 8 * k"
  shows "n - n mod 8 + 7 < 8 * k"
proof -
  have "n div 8 < k" using assms by (simp add: less_mult_imp_div_less mult.commute)
  then have "8 * (n div 8) + 8 \<le> 8 * k" by simp
  moreover have "n - n mod 8 = 8 * (n div 8)"
    by (simp add: minus_mod_eq_mult_div)
  ultimately show ?thesis by simp
qed

lemma or7_unat: "unat ((x::size_t) OR 7) = unat x - unat x mod 8 + 7"
proof -
  have le: "x AND 7 \<le> x" by (rule word_and_le2)
  have a: "unat (x - (x AND 7)) = unat x - unat x mod 8"
    using le by (simp add: unat_sub and7_unat)
  have b: "unat x - unat x mod 8 + 7 < 18446744073709551616"
    using round_down_bound [of "unat x" 2305843009213693952] unat_size_t_less [of x] by simp
  have "unat (x - (x AND 7) + 7) = (unat (x - (x AND 7)) + 7) mod 18446744073709551616"
    by (simp add: unat_word_ariths)
  with a b show ?thesis
    by (simp add: or7_word)
qed

lemma round_up_nat:
  fixes b :: nat
  assumes "1 \<le> b"
  shows "b - 1 - (b - 1) mod 8 + 7 + 1 = (b + 7) div 8 * 8"
proof -
  obtain m where b: "b = Suc m" using assms by (cases b) auto
  have "m - m mod 8 = 8 * (m div 8)" by (simp add: minus_mod_eq_mult_div)
  moreover have "(8 + m) div 8 = Suc (m div 8)" by simp
  ultimately show ?thesis by (simp add: b)
qed

lemma round_up_nat_le:
  fixes b :: nat
  assumes "b \<le> 8 * k"
  shows "(b + 7) div 8 * 8 \<le> 8 * k"
proof -
  have "(b + 7) div 8 \<le> (8 * k + 7) div 8" using assms by (intro div_le_mono) simp
  also have "\<dots> = k" by simp
  finally show ?thesis by simp
qed

lemma round_up_nat_props:
  fixes b :: nat
  shows "b \<le> (b + 7) div 8 * 8" "(b + 7) div 8 * 8 < b + 8" "8 dvd (b + 7) div 8 * 8"
    "8 dvd m \<Longrightarrow> b \<le> m \<Longrightarrow> (b + 7) div 8 * 8 \<le> m"
proof -
  have e: "(b + 7) div 8 * 8 = b + 7 - (b + 7) mod 8"
    by (simp add: minus_mod_eq_div_mult)
  have l: "(b + 7) mod 8 < 8" by simp
  show "b \<le> (b + 7) div 8 * 8" using e l by linarith
  show "(b + 7) div 8 * 8 < b + 8" using e by simp
  show "8 dvd (b + 7) div 8 * 8" by simp
  show "(b + 7) div 8 * 8 \<le> m" if d: "8 dvd m" and le: "b \<le> m"
  proof -
    from d obtain k where m: "m = 8 * k" by (auto simp: dvd_def)
    show ?thesis using round_up_nat_le [of b k] le m by simp
  qed
qed

lemma rounded_up_unat:
  assumes "1 \<le> unat bytes" "unat bytes \<le> 18446744073709551608"
  shows "unat (rounded_up bytes) = (unat bytes + 7) div 8 * 8"
proof -
  have x: "unat (bytes - 1) = unat bytes - 1"
    using assms by (simp add: unat_sub word_le_nat_alt)
  have bd: "(unat bytes + 7) div 8 * 8 < 18446744073709551616"
    using round_up_nat_le [of "unat bytes" 2305843009213693951] assms by simp
  have "unat (((bytes - 1) OR 7) + 1) = (unat ((bytes - 1) OR 7) + 1) mod 18446744073709551616"
    by (simp add: unat_word_ariths)
  also have "\<dots> = (unat bytes - 1 - (unat bytes - 1) mod 8 + 7 + 1) mod 18446744073709551616"
    by (simp add: or7_unat x)
  also have "\<dots> = ((unat bytes + 7) div 8 * 8) mod 18446744073709551616"
    by (simp only: round_up_nat [OF assms(1)])
  also have "\<dots> = (unat bytes + 7) div 8 * 8"
    using bd by simp
  finally show ?thesis by (simp add: rounded_up_def sizeof_void_ptr_def)
qed

section \<open>The paths of AllocateImpl\<close>

lemma AllocateImpl_direct:
  assumes "shard_block_size st div 4 < bytes \<or> force_arena \<or>
     tls_cpuid = 0 \<and> allocated_and_unused (AccessAtCore (shards st) 0) = 0 \<and> arena_try_lock sc"
  shows "snd (AllocateImpl A sc bytes force_arena func tls_cpuid st) = call_func A func tls_cpuid st"
  using assms by (auto simp: AllocateImpl_def)

lemma AllocateImpl_shard:
  assumes "\<not> (shard_block_size st div 4 < bytes \<or> force_arena \<or>
     tls_cpuid = 0 \<and> allocated_and_unused (AccessAtCore (shards st) 0) = 0 \<and> arena_try_lock sc)"
  shows "snd (AllocateImpl A sc bytes force_arena func tls_cpuid st) =
         snd (shard_path A sc bytes func tls_cpuid st)"
  using assms by (auto simp: AllocateImpl_def split: prod.splits)

lemma shard_path_hit:
  assumes "pick_shard sc cpu st = (j, cpu', evs)"
    and "bytes \<le> allocated_and_unused (shards st ! j)"
  shows "shard_path A sc bytes func cpu st =
     (evs @ [ShardUnlock j],
      Inr (fst (bump (shards st ! j) (allocated_and_unused (shards st ! j)) bytes), cpu',
           st\<lparr>shards := (shards st)[j := snd (bump (shards st ! j) (allocated_and_unused (shards st ! j)) bytes)]\<rparr>))"
  using assms
  by (simp add: shard_path_def AccessAtCore_def Let_def not_less [symmetric] split: prod.splits)

lemma shard_path_inline:
  assumes "pick_shard sc cpu st = (j, cpu', evs)"
    and "allocated_and_unused (shards st ! j) < bytes"
    and "arena_allocated_and_unused st = arena_AllocatedAndUnused A (arena st)"
    and "bytes \<le> arena_allocated_and_unused st" and "arena_IsInInlineBlock A (arena st)"
  shows "shard_path A sc bytes func cpu st =
     (evs @ [ArenaLock, ArenaUnlock, ShardUnlock j], call_func A func cpu' st)"
  using assms
  by (simp add: shard_path_def AccessAtCore_def Let_def not_less [symmetric] split: prod.splits)

lemma shard_path_refill:
  assumes "pick_shard sc cpu st = (j, cpu', evs)"
    and "allocated_and_unused (shards st ! j) < bytes"
    and "arena_allocated_and_unused st = arena_AllocatedAndUnused A (arena st)"
    and "\<not> (bytes \<le> arena_allocated_and_unused st \<and> arena_IsInInlineBlock A (arena st))"
    and "w = window_size (arena_allocated_and_unused st) (shard_block_size st)"
    and "arena_AllocateAligned A w 0 (arena st) = Some (p, a)"
  shows "shard_path A sc bytes func cpu st =
     (evs @ [ArenaLock, ArenaUnlock, ShardUnlock j],
      Inr (fst (bump ((shards st ! j)\<lparr>free_begin := p\<rparr>) w bytes), cpu',
           (Fixup A (st\<lparr>arena := a\<rparr>))\<lparr>shards :=
              (shards st)[j := snd (bump ((shards st ! j)\<lparr>free_begin := p\<rparr>) w bytes)]\<rparr>))"
  using assms
  by (auto simp add: shard_path_def AccessAtCore_def Fixup_def Let_def split: prod.splits)

lemma bump_eq:
  "bump s avail bytes =
     (if bytes mod sizeof_void_ptr = 0 then free_begin s else free_begin s + avail - bytes,
      \<lparr>free_begin = (if bytes mod sizeof_void_ptr = 0 then free_begin s + bytes else free_begin s),
       allocated_and_unused = avail - bytes\<rparr>)"
  by (simp add: bump_def Let_def)

section \<open>Slot indices\<close>

lemma Size_pow: "length slots = 2 ^ k \<Longrightarrow> Size slots = 2 ^ k"
  by (simp add: Size_def)

lemma mask_index_less:
  assumes "k < 64"
  shows "unat ((cpu::size_t) AND (2 ^ k - 1)) < 2 ^ k"
proof -
  have "cpu AND (2 ^ k - 1) = take_bit k cpu"
    by (simp add: take_bit_eq_mask mask_eq_exp_minus_1)
  then show ?thesis
    by (simp add: unsigned_take_bit_eq)
qed

lemma pow_le_64:
  assumes "k < 64"
  shows "(2::nat) ^ (Suc k) \<le> 2 ^ 64"
  using assms by (intro power_increasing) simp_all

lemma unat_pow:
  assumes k: "k < 64"
  shows "unat (2 ^ k :: size_t) = 2 ^ k"
proof -
  have "(2 ^ k :: size_t) = of_nat (2 ^ k)" by simp
  moreover have "(2::nat) ^ k < 2 ^ 64" using k by (intro power_strict_increasing) simp_all
  ultimately show ?thesis by (simp only: unat_of_nat) simp
qed

lemma or_pow_unat:
  assumes k: "k < 64" and i: "i < 2 ^ k"
  shows "unat ((of_nat i :: size_t) OR 2 ^ k) = i + 2 ^ k"
proof -
  let ?a = "of_nat i :: size_t"
  have t: "take_bit k i = i" using i by (simp add: take_bit_nat_eq_self)
  have "?a = take_bit k ?a"
    by (simp add: take_bit_of_nat t)
  then have "?a AND 2 ^ k = take_bit k ?a AND 2 ^ k" by simp
  also have "\<dots> = 0"
    by (rule bit_eqI) (auto simp: bit_and_iff bit_take_bit_iff bit_exp_iff)
  finally have "?a OR 2 ^ k = ?a + 2 ^ k"
    by (simp add: disjunctive_add_eq_or)
  moreover have "i + 2 ^ k < (2::nat) ^ 64"
    using i pow_le_64 [OF k] by simp
  moreover have "unat ?a = i"
    using i pow_le_64 [OF k] by (simp add: unat_of_nat)
  ultimately show ?thesis
    by (simp add: unat_word_ariths unat_pow [OF k])
qed

lemma slots_okE:
  assumes "slots_ok slots"
  obtains k where "k < 64" "length slots = 2 ^ k" "Size slots = 2 ^ k"
  using assms by (auto simp: slots_ok_def Size_def)

lemma masked_index_in_range:
  assumes "slots_ok slots"
  shows "unat (cpu AND (Size slots - 1)) < length slots"
proof -
  from assms obtain k where k: "k < 64" "length slots = 2 ^ k" "Size slots = 2 ^ k"
    by (rule slots_okE)
  show ?thesis using mask_index_less [OF k(1), of cpu] by (simp add: k)
qed

lemma Repick_eq:
  "Repick st cpu =
     (cpu mod length (shards st), of_nat (cpu mod length (shards st)) OR Size (shards st))"
  by (simp add: Repick_def AccessElementAndIndex_def)

lemma pick_shard_in_range:
  assumes "slots_ok (shards st)" and "pick_shard sc cpu st = (j, cpu', evs)"
  shows "j < length (shards st)"
proof (cases "shard_try_lock sc")
  case True
  with assms(2) have "j = unat (cpu AND (Size (shards st) - 1))"
    by (auto simp: pick_shard_def Let_def)
  then show ?thesis using masked_index_in_range [OF assms(1)] by simp
next
  case False
  from assms(1) obtain k where k: "length (shards st) = 2 ^ k" by (rule slots_okE)
  from False assms(2) have "j = cur_cpu sc mod length (shards st)"
    by (auto simp: pick_shard_def Let_def Repick_eq)
  then show ?thesis by (simp add: k)
qed

section \<open>The test arena\<close>

lemma fresh_eq:
  "fresh = \<lparr>shard_block_size = 512, shards = replicate 8 Shard_ctor,
     arena = \<lparr>ta_next = 4096, ta_unused = 2048, ta_inline = True,
         ta_block_size = 4096, ta_allocated = 2048, ta_irregular = 0\<rparr>,
     arena_allocated_and_unused = 2048, memory_allocated_bytes = 2048,
     irregular_block_num = 0\<rparr>"
  by (simp add: fresh_def ConcurrentArena_ctor_def TestArena_def ta_ctor_def Fixup_def
      kMaxShardBlockSize_def CoreLocalArray_ctor_def)

lemma replicate_8: "replicate 8 x = [x, x, x, x, x, x, x, x]"
  by (simp add: numeral_eq_Suc)

lemma slots_ok_8: "length slots = 8 \<Longrightarrow> slots_ok slots"
  unfolding slots_ok_def by (rule bexI [of _ 3]) simp_all

section \<open>Allocation from a shard's window\<close>

text \<open>
  Claim C3. A request that takes the shard path (it is not routed to the arena by line
  137) and finds in the shard it locks a remaining capacity \<open>avail \<ge> bytes\<close>: when
  \<open>bytes\<close> is a multiple of the word size the returned pointer is the shard's
  free-pointer, which advances by \<open>bytes\<close>; otherwise the returned pointer is
  free-pointer + \<open>avail\<close> - \<open>bytes\<close> and the free-pointer stays. In both cases the
  capacity of the shard becomes \<open>avail - bytes\<close>, and nothing else of the state
  changes. For 13 bytes and a capacity of 100 the pointer is free-pointer + 87, the
  capacity becomes 87 and the free-pointer stays.
\<close>

theorem shard_path_bump:
  assumes ok: "slots_ok (shards st)"
    and shard: "\<not> (shard_block_size st div 4 < bytes \<or> force_arena \<or>
        tls_cpuid = 0 \<and> allocated_and_unused (AccessAtCore (shards st) 0) = 0 \<and> arena_try_lock sc)"
    and pick: "pick_shard sc tls_cpuid st = (j, cpu', evs)"
    and s: "s = AccessAtCore (shards st) j"
    and avail: "avail = allocated_and_unused s"
    and enough: "bytes \<le> avail"
    and s': "s' = \<lparr>free_begin = (if bytes mod sizeof_void_ptr = 0 then free_begin s + bytes
                                   else free_begin s),
                    allocated_and_unused = avail - bytes\<rparr>"
    and st': "st' = st\<lparr>shards := (shards st)[j := s']\<rparr>"
  shows "snd (AllocateImpl A sc bytes force_arena func tls_cpuid st) =
           Inr (if bytes mod sizeof_void_ptr = 0 then free_begin s
                else free_begin s + avail - bytes, cpu', st') \<and>
         AccessAtCore (shards st') j = s' \<and>
         (bytes = 13 \<and> avail = 100 \<longrightarrow>
            snd (AllocateImpl A sc bytes force_arena func tls_cpuid st) =
              Inr (free_begin s + 87, cpu', st') \<and>
            allocated_and_unused s' = 87 \<and> free_begin s' = free_begin s)"
proof -
  have j: "j < length (shards st)" using ok pick by (rule pick_shard_in_range)
  have "snd (AllocateImpl A sc bytes force_arena func tls_cpuid st) =
        snd (shard_path A sc bytes func tls_cpuid st)"
    using shard by (rule AllocateImpl_shard)
  also have "\<dots> = Inr (if bytes mod sizeof_void_ptr = 0 then free_begin s
                else free_begin s + avail - bytes, cpu', st')"
    using enough
    by (simp add: shard_path_hit [OF pick] s [unfolded AccessAtCore_def, symmetric] avail [symmetric]
        bump_eq s' st')
  finally have a: "snd (AllocateImpl A sc bytes force_arena func tls_cpuid st) =
        Inr (if bytes mod sizeof_void_ptr = 0 then free_begin s
                else free_begin s + avail - bytes, cpu', st')" .
  have b: "AccessAtCore (shards st') j = s'"
    using j by (simp add: st' AccessAtCore_def)
  have c: "bytes = 13 \<and> avail = 100 \<longrightarrow>
            snd (AllocateImpl A sc bytes force_arena func tls_cpuid st) =
              Inr (free_begin s + 87, cpu', st') \<and>
            allocated_and_unused s' = 87 \<and> free_begin s' = free_begin s"
    using a by (auto simp: s' sizeof_void_ptr_def)
  from a b c show ?thesis by blast
qed

theorem shard_path_bump_witness:
  "snd (AllocateImpl TestArena \<lparr>arena_try_lock = True, shard_try_lock = True, cur_cpu = 0\<rparr>
          13 False (arena_Allocate TestArena 13) 0
          (fresh\<lparr>shards := (shards fresh)[0 := \<lparr>free_begin = 8192, allocated_and_unused = 100\<rparr>]\<rparr>)) =
   Inr (8279, 0,
        fresh\<lparr>shards := (shards fresh)[0 := \<lparr>free_begin = 8192, allocated_and_unused = 87\<rparr>]\<rparr>)"
proof -
  let ?st = "fresh\<lparr>shards := (shards fresh)[0 := \<lparr>free_begin = 8192, allocated_and_unused = 100\<rparr>]\<rparr>"
  let ?sc = "\<lparr>arena_try_lock = True, shard_try_lock = True, cur_cpu = 0\<rparr>"
  have ok: "slots_ok (shards ?st)"
    by (rule slots_ok_8) (simp add: fresh_eq)
  have shard: "\<not> (shard_block_size ?st div 4 < 13 \<or> False \<or>
        (0::size_t) = 0 \<and> allocated_and_unused (AccessAtCore (shards ?st) 0) = 0 \<and> arena_try_lock ?sc)"
    by (simp add: fresh_eq AccessAtCore_def replicate_8)
  have pick: "pick_shard ?sc 0 ?st = (0, 0, [ShardTryLock 0 True])"
    by (simp add: pick_shard_def)
  have s: "\<lparr>free_begin = 8192, allocated_and_unused = 100\<rparr> = AccessAtCore (shards ?st) 0"
    by (simp add: fresh_eq AccessAtCore_def replicate_8)
  show ?thesis
    using shard_path_bump [where A = TestArena and func = "arena_Allocate TestArena 13",
        OF ok shard pick s refl]
    by (simp add: sizeof_void_ptr_def)
qed

section \<open>Refilling a shard\<close>

lemma window_size_nat:
  assumes "sbs \<le> kMaxShardBlockSize"
  shows "window_size exact sbs =
     (if unat sbs div 2 \<le> unat exact \<and> unat exact < 2 * unat sbs then exact else sbs)"
proof -
  have b: "unat sbs \<le> 131072"
    using assms by (simp add: kMaxShardBlockSize_def word_le_nat_alt)
  have d: "unat (sbs div 2) = unat sbs div 2"
    by (simp add: unat_div)
  have m: "unat (sbs * 2) = 2 * unat sbs"
    using b by (simp add: unat_word_ariths)
  show ?thesis
    by (simp add: window_size_def word_le_nat_alt word_less_nat_alt d m)
qed

lemma request_fits_window:
  assumes "\<not> shard_block_size st div 4 < bytes"
  shows "bytes \<le> window_size exact (shard_block_size st)"
proof -
  let ?sbs = "shard_block_size st"
  have b: "unat bytes \<le> unat ?sbs div 4"
    using assms by (simp add: not_less word_le_nat_alt unat_div)
  have "unat bytes \<le> unat (window_size exact ?sbs)"
  proof (cases "exact \<ge> ?sbs div 2 \<and> exact < ?sbs * 2")
    case True
    then have "unat ?sbs div 2 \<le> unat exact"
      by (simp add: word_le_nat_alt unat_div)
    with b True show ?thesis by (simp add: window_size_def)
  next
    case False
    have "unat bytes \<le> unat ?sbs" using b by simp
    with False show ?thesis by (auto simp: window_size_def)
  qed
  then show ?thesis by (simp add: word_le_nat_alt)
qed

lemma refill_state_eq:
  "refill_state = \<lparr>shard_block_size = 512,
     shards = (replicate 8 Shard_ctor)[0 := \<lparr>free_begin = 8192, allocated_and_unused = 48\<rparr>],
     arena = \<lparr>ta_next = 4096, ta_unused = 600, ta_inline = False,
         ta_block_size = 4096, ta_allocated = 2048, ta_irregular = 0\<rparr>,
     arena_allocated_and_unused = 600, memory_allocated_bytes = 2048,
     irregular_block_num = 0\<rparr>"
  by (simp add: refill_state_def fresh_eq)

lemma ta_alloc_600:
  "arena_AllocateAligned TestArena 600 0 (arena refill_state) =
     Some (4096, \<lparr>ta_next = 4696, ta_unused = 0, ta_inline = False,
         ta_block_size = 4096, ta_allocated = 2048, ta_irregular = 0\<rparr>)"
  by (simp add: refill_state_eq TestArena_def ta_alloc_def Let_def)

text \<open>
  Claim C4. A request on the shard path that finds less than \<open>bytes\<close> in its shard
  and does not take the inline-block shortcut refills the shard. The instance keeps
  \<^verbatim>\<open>shard_block_size\<close> at most 128 KiB, so the products of line 190 do not wrap.
  With \<open>exact\<close> the cached allocated-and-unused amount of the arena (equal to the
  arena's own, as line 175 asserts), the size \<open>w\<close> of the new window is \<open>exact\<close> when
  \<open>shard_block_size / 2 \<le> exact < 2 * shard_block_size\<close> and \<open>shard_block_size\<close>
  otherwise, and the request fits in it. The window is the result of the arena's
  aligned allocation of \<open>w\<close> bytes with no huge page size; the request is then served
  from a shard whose free-pointer is that window and whose capacity is \<open>w\<close>, the
  cached statistics are those of the arena after the allocation, and when the arena
  cannot allocate the call fails with it.
\<close>

theorem shard_refill_window:
  assumes sbs: "shard_block_size st \<le> kMaxShardBlockSize"
    and shard: "\<not> (shard_block_size st div 4 < bytes \<or> force_arena \<or>
        tls_cpuid = 0 \<and> allocated_and_unused (AccessAtCore (shards st) 0) = 0 \<and> arena_try_lock sc)"
    and pick: "pick_shard sc tls_cpuid st = (j, cpu', evs)"
    and short: "allocated_and_unused (AccessAtCore (shards st) j) < bytes"
    and exact: "exact = arena_allocated_and_unused st"
    and cached: "exact = arena_AllocatedAndUnused A (arena st)"
    and no_shortcut: "\<not> (bytes \<le> exact \<and> arena_IsInInlineBlock A (arena st))"
    and w: "w = (if unat (shard_block_size st) div 2 \<le> unat exact \<and>
                    unat exact < 2 * unat (shard_block_size st)
                 then exact else shard_block_size st)"
  shows "bytes \<le> w \<and>
         (case arena_AllocateAligned A w 0 (arena st) of
            None \<Rightarrow> snd (AllocateImpl A sc bytes force_arena func tls_cpuid st) = Inl BadAlloc
          | Some (p, a) \<Rightarrow>
              (let (rv, s') = bump \<lparr>free_begin = p, allocated_and_unused = w\<rparr> w bytes;
                   st' = (Fixup A (st\<lparr>arena := a\<rparr>))\<lparr>shards := (shards st)[j := s']\<rparr>
               in snd (AllocateImpl A sc bytes force_arena func tls_cpuid st) = Inr (rv, cpu', st') \<and>
                  arena st' = a \<and>
                  arena_allocated_and_unused st' = arena_AllocatedAndUnused A a \<and>
                  memory_allocated_bytes st' = arena_MemoryAllocatedBytes A a \<and>
                  irregular_block_num st' = arena_IrregularBlockNum A a))"
proof -
  have ws: "w = window_size (arena_allocated_and_unused st) (shard_block_size st)"
    using w exact by (simp add: window_size_nat [OF sbs])
  have fits: "bytes \<le> w"
    unfolding ws using shard by (intro request_fits_window) simp
  have sp: "snd (AllocateImpl A sc bytes force_arena func tls_cpuid st) =
        snd (shard_path A sc bytes func tls_cpuid st)"
    using shard by (rule AllocateImpl_shard)
  have short': "allocated_and_unused (shards st ! j) < bytes"
    using short by (simp add: AccessAtCore_def)
  have cached': "arena_allocated_and_unused st = arena_AllocatedAndUnused A (arena st)"
    using exact cached by simp
  have ns: "\<not> (bytes \<le> arena_allocated_and_unused st \<and> arena_IsInInlineBlock A (arena st))"
    using no_shortcut exact by simp
  show ?thesis
  proof (cases "arena_AllocateAligned A w 0 (arena st)")
    case None
    then have "snd (shard_path A sc bytes func tls_cpuid st) = Inl BadAlloc"
      using pick short' cached' ns ws
      by (auto simp: shard_path_def AccessAtCore_def Let_def)
    with None fits sp show ?thesis by simp
  next
    case (Some pa)
    obtain p a where pa: "pa = (p, a)" by (cases pa)
    have "bump ((shards st ! j)\<lparr>free_begin := p\<rparr>) w bytes =
          bump \<lparr>free_begin = p, allocated_and_unused = w\<rparr> w bytes"
      by (simp add: bump_eq)
    then show ?thesis
      using shard_path_refill [OF pick short' cached' ns ws Some [unfolded pa], of func] sp fits Some pa
      by (simp add: Fixup_def split: prod.splits)
  qed
qed

theorem shard_refill_window_witness:
  "case snd (AllocateImpl TestArena \<lparr>arena_try_lock = True, shard_try_lock = True, cur_cpu = 0\<rparr>
          64 False (arena_Allocate TestArena 64) 0 refill_state) of
     Inl e \<Rightarrow> False
   | Inr (rv, cpu, st') \<Rightarrow>
       rv = 4096 \<and> cpu = 0 \<and>
       AccessAtCore (shards st') 0 = \<lparr>free_begin = 4160, allocated_and_unused = 536\<rparr> \<and>
       arena_allocated_and_unused st' = 0"
proof -
  let ?sc = "\<lparr>arena_try_lock = True, shard_try_lock = True, cur_cpu = 0\<rparr>"
  have sbs: "shard_block_size refill_state \<le> kMaxShardBlockSize"
    by (simp add: refill_state_eq kMaxShardBlockSize_def)
  have shard: "\<not> (shard_block_size refill_state div 4 < 64 \<or> False \<or>
        (0::size_t) = 0 \<and> allocated_and_unused (AccessAtCore (shards refill_state) 0) = 0 \<and>
        arena_try_lock ?sc)"
    by (simp add: refill_state_eq AccessAtCore_def replicate_8)
  have pick: "pick_shard ?sc 0 refill_state = (0, 0, [ShardTryLock 0 True])"
    by (simp add: pick_shard_def)
  have short: "allocated_and_unused (AccessAtCore (shards refill_state) 0) < 64"
    by (simp add: refill_state_eq AccessAtCore_def replicate_8)
  have exact: "600 = arena_allocated_and_unused refill_state"
    by (simp add: refill_state_eq)
  have cached: "600 = arena_AllocatedAndUnused TestArena (arena refill_state)"
    by (simp add: refill_state_eq TestArena_def)
  have no_shortcut: "\<not> ((64::size_t) \<le> 600 \<and> arena_IsInInlineBlock TestArena (arena refill_state))"
    by (simp add: refill_state_eq TestArena_def)
  have w: "(600::size_t) = (if unat (shard_block_size refill_state) div 2 \<le> unat (600::size_t) \<and>
                    unat (600::size_t) < 2 * unat (shard_block_size refill_state)
                 then 600 else shard_block_size refill_state)"
    by (simp add: refill_state_eq)
  have "snd (AllocateImpl TestArena ?sc 64 False (arena_Allocate TestArena 64) 0 refill_state) =
      Inr (4096, 0,
        (Fixup TestArena (refill_state\<lparr>arena := \<lparr>ta_next = 4696, ta_unused = 0, ta_inline = False,
           ta_block_size = 4096, ta_allocated = 2048, ta_irregular = 0\<rparr>\<rparr>))
        \<lparr>shards := (shards refill_state)[0 := \<lparr>free_begin = 4160, allocated_and_unused = 536\<rparr>]\<rparr>)"
    using shard_refill_window [where A = TestArena and func = "arena_Allocate TestArena 64",
        OF sbs shard pick short exact cached no_shortcut w]
    by (simp add: ta_alloc_600 bump_eq sizeof_void_ptr_def)
  then show ?thesis
    by (simp add: Fixup_def TestArena_def AccessAtCore_def refill_state_eq replicate_8)
qed

section \<open>Routing\<close>

lemma shard_path_events:
  "\<exists>rest. fst (shard_path A sc bytes func cpu st) =
      ShardTryLock (unat (cpu AND (Size (shards st) - 1))) (shard_try_lock sc) # rest \<and>
      \<not> list_ex is_arena_try_lock rest"
  by (auto simp: shard_path_def pick_shard_def Let_def Repick_eq split: prod.splits option.splits)

lemma shard_path_has_shard_event:
  "list_ex is_shard_event (fst (shard_path A sc bytes func cpu st))"
  using shard_path_events [of A sc bytes func cpu st] by auto

lemma shard_path_no_arena_try_lock:
  "\<not> list_ex is_arena_try_lock (fst (shard_path A sc bytes func cpu st))"
  using shard_path_events [of A sc bytes func cpu st] by auto

lemma call_func_explicit:
  "call_func A func cpu st =
     (case func (arena st) of
        None \<Rightarrow> Inl BadAlloc
      | Some (rv, a) \<Rightarrow>
          Inr (rv, cpu,
               st\<lparr>arena := a,
                  arena_allocated_and_unused := arena_AllocatedAndUnused A a,
                  memory_allocated_bytes := arena_MemoryAllocatedBytes A a,
                  irregular_block_num := arena_IrregularBlockNum A a\<rparr>))"
  by (simp add: call_func_def Fixup_def split: option.splits)

lemma counters_200:
  "arena_AllocatedAndUnused TestArena \<lparr>ta_next = 4296, ta_unused = 1848, ta_inline = True,
         ta_block_size = 4096, ta_allocated = 2048, ta_irregular = 0\<rparr> = 1848"
  "arena_MemoryAllocatedBytes TestArena \<lparr>ta_next = 4296, ta_unused = 1848, ta_inline = True,
         ta_block_size = 4096, ta_allocated = 2048, ta_irregular = 0\<rparr> = 2048"
  "arena_IrregularBlockNum TestArena \<lparr>ta_next = 4296, ta_unused = 1848, ta_inline = True,
         ta_block_size = 4096, ta_allocated = 2048, ta_irregular = 0\<rparr> = 0"
  by (simp_all add: TestArena_def)

text \<open>
  Claim C2. A call of \<^verbatim>\<open>AllocateImpl\<close> takes the direct path, on which no mutex
  of a shard is touched, exactly when \<open>bytes > shard_block_size / 4\<close>, or
  \<open>force_arena\<close> is set, or the thread's \<^verbatim>\<open>tls_cpuid\<close> is 0 and slot 0 reports no
  remaining capacity and the \<^verbatim>\<open>try_lock\<close> of the arena mutex succeeds. The tests
  run in that order: the \<^verbatim>\<open>try_lock\<close> is attempted exactly when the two tests before
  it fail and the two cheap tests of the probe hold. On the direct path the arena
  mutex is held (by a blocking lock, or by the \<^verbatim>\<open>try_lock\<close> that succeeded), the
  arena serves the request, and the three cached counters are set to what the arena
  reports after the allocation: its unused bytes, its allocated bytes and its number
  of irregular blocks. The shards and the shard block size are as before, and
  \<^verbatim>\<open>tls_cpuid\<close> stays. Otherwise the call is the shard path, after the failed
  \<^verbatim>\<open>try_lock\<close> when one was attempted.
\<close>

theorem AllocateImpl_routing:
  "let too_large = shard_block_size st div 4 < bytes;
       probe = (tls_cpuid = 0 \<and> allocated_and_unused (AccessAtCore (shards st) 0) = 0);
       direct = (too_large \<or> force_arena \<or> probe \<and> arena_try_lock sc);
       (evs, r) = AllocateImpl A sc bytes force_arena func tls_cpuid st
   in (list_ex is_shard_event evs \<longleftrightarrow> \<not> direct) \<and>
      (list_ex is_arena_try_lock evs \<longleftrightarrow> \<not> too_large \<and> \<not> force_arena \<and> probe) \<and>
      (direct \<longrightarrow>
         evs = (if too_large \<or> force_arena then [ArenaLock, ArenaUnlock]
                else [ArenaTryLock True, ArenaUnlock]) \<and>
         r = (case func (arena st) of
                None \<Rightarrow> Inl BadAlloc
              | Some (rv, a) \<Rightarrow>
                  Inr (rv, tls_cpuid,
                       st\<lparr>arena := a,
                          arena_allocated_and_unused := arena_AllocatedAndUnused A a,
                          memory_allocated_bytes := arena_MemoryAllocatedBytes A a,
                          irregular_block_num := arena_IrregularBlockNum A a\<rparr>))) \<and>
      (\<not> direct \<longrightarrow>
         evs = (if probe then [ArenaTryLock False] else []) @
               fst (shard_path A sc bytes func tls_cpuid st) \<and>
         r = snd (shard_path A sc bytes func tls_cpuid st))"
  using shard_path_has_shard_event [of A sc bytes func tls_cpuid st]
    shard_path_no_arena_try_lock [of A sc bytes func tls_cpuid st]
  by (auto simp: AllocateImpl_def Let_def call_func_explicit case_prod_unfold)

lemma ta_alloc_200:
  "arena_Allocate TestArena 200 (arena fresh) =
     Some (4096, \<lparr>ta_next = 4296, ta_unused = 1848, ta_inline = True,
         ta_block_size = 4096, ta_allocated = 2048, ta_irregular = 0\<rparr>)"
  by (simp add: fresh_eq TestArena_def ta_alloc_def Let_def)

theorem AllocateImpl_routing_witness:
  "AllocateImpl TestArena \<lparr>arena_try_lock = False, shard_try_lock = True, cur_cpu = 0\<rparr>
      200 False (arena_Allocate TestArena 200) 0 fresh =
     ([ArenaLock, ArenaUnlock],
      Inr (4096, 0,
           fresh\<lparr>arena := \<lparr>ta_next = 4296, ta_unused = 1848, ta_inline = True,
                      ta_block_size = 4096, ta_allocated = 2048, ta_irregular = 0\<rparr>,
                 arena_allocated_and_unused := 1848,
                 memory_allocated_bytes := 2048,
                 irregular_block_num := 0\<rparr>)) \<and>
   list_ex is_shard_event
     (fst (AllocateImpl TestArena \<lparr>arena_try_lock = True, shard_try_lock = True, cur_cpu = 0\<rparr>
        64 False (arena_Allocate TestArena 64) 0 refill_state))"
proof -
  have a: "shard_block_size fresh div 4 < 200"
    by (simp add: fresh_eq)
  have b: "\<not> shard_block_size refill_state div 4 < 64"
    "allocated_and_unused (AccessAtCore (shards refill_state) 0) \<noteq> 0"
    by (simp_all add: refill_state_eq AccessAtCore_def replicate_8)
  have c: "AllocateImpl TestArena \<lparr>arena_try_lock = False, shard_try_lock = True, cur_cpu = 0\<rparr>
      200 False (arena_Allocate TestArena 200) 0 fresh =
     ([ArenaLock, ArenaUnlock],
      Inr (4096, 0,
           fresh\<lparr>arena := \<lparr>ta_next = 4296, ta_unused = 1848, ta_inline = True,
                      ta_block_size = 4096, ta_allocated = 2048, ta_irregular = 0\<rparr>,
                 arena_allocated_and_unused := 1848,
                 memory_allocated_bytes := 2048,
                 irregular_block_num := 0\<rparr>))"
    using AllocateImpl_routing [where st = fresh and bytes = 200 and tls_cpuid = 0
        and sc = "\<lparr>arena_try_lock = False, shard_try_lock = True, cur_cpu = 0\<rparr>"
        and force_arena = False and A = TestArena and func = "arena_Allocate TestArena 200"]
    by (simp add: Let_def case_prod_unfold a ta_alloc_200 counters_200 prod_eq_iff)
  have d: "list_ex is_shard_event
     (fst (AllocateImpl TestArena \<lparr>arena_try_lock = True, shard_try_lock = True, cur_cpu = 0\<rparr>
        64 False (arena_Allocate TestArena 64) 0 refill_state))"
    using AllocateImpl_routing [where st = refill_state and bytes = 64 and tls_cpuid = 0
        and sc = "\<lparr>arena_try_lock = True, shard_try_lock = True, cur_cpu = 0\<rparr>"
        and force_arena = False and A = TestArena and func = "arena_Allocate TestArena 64"]
    by (simp only: Let_def case_prod_unfold b) simp
  from c d show ?thesis by (rule conjI)
qed

section \<open>The outcomes of a call\<close>

lemma pick_shard_tls:
  assumes "pick_shard sc cpu st = (j, cpu', evs)"
  shows "cpu' = cpu \<or> cpu' = snd (Repick st (cur_cpu sc))"
  using assms by (auto simp: pick_shard_def Let_def split: if_splits prod.splits)

lemma shard_path_cases:
  assumes r: "snd (shard_path A sc bytes func cpu st) = Inr (rv, cpu', st')"
  obtains
    (shortcut) j evs a where
      "pick_shard sc cpu st = (j, cpu', evs)"
      "allocated_and_unused (shards st ! j) < bytes"
      "arena_allocated_and_unused st = arena_AllocatedAndUnused A (arena st)"
      "bytes \<le> arena_allocated_and_unused st" "arena_IsInInlineBlock A (arena st)"
      "func (arena st) = Some (rv, a)" "st' = Fixup A (st\<lparr>arena := a\<rparr>)"
  | (hit) j evs where
      "pick_shard sc cpu st = (j, cpu', evs)"
      "bytes \<le> allocated_and_unused (shards st ! j)"
      "rv = fst (bump (shards st ! j) (allocated_and_unused (shards st ! j)) bytes)"
      "st' = st\<lparr>shards := (shards st)[j :=
                snd (bump (shards st ! j) (allocated_and_unused (shards st ! j)) bytes)]\<rparr>"
  | (refill) j evs p a w where
      "pick_shard sc cpu st = (j, cpu', evs)"
      "allocated_and_unused (shards st ! j) < bytes"
      "arena_allocated_and_unused st = arena_AllocatedAndUnused A (arena st)"
      "\<not> (bytes \<le> arena_allocated_and_unused st \<and> arena_IsInInlineBlock A (arena st))"
      "w = window_size (arena_allocated_and_unused st) (shard_block_size st)"
      "arena_AllocateAligned A w 0 (arena st) = Some (p, a)"
      "rv = fst (bump \<lparr>free_begin = p, allocated_and_unused = w\<rparr> w bytes)"
      "st' = (Fixup A (st\<lparr>arena := a\<rparr>))\<lparr>shards := (shards st)[j :=
                snd (bump \<lparr>free_begin = p, allocated_and_unused = w\<rparr> w bytes)]\<rparr>"
proof -
  obtain j c evs where pick: "pick_shard sc cpu st = (j, c, evs)"
    by (cases "pick_shard sc cpu st")
  show thesis
  proof (cases "allocated_and_unused (shards st ! j) < bytes")
    case False
    then have le: "bytes \<le> allocated_and_unused (shards st ! j)" by simp
    from r have "cpu' = c"
      "rv = fst (bump (shards st ! j) (allocated_and_unused (shards st ! j)) bytes)"
      "st' = st\<lparr>shards := (shards st)[j :=
                snd (bump (shards st ! j) (allocated_and_unused (shards st ! j)) bytes)]\<rparr>"
      by (simp_all add: shard_path_hit [OF pick le])
    with pick le show thesis by (intro hit) simp_all
  next
    case short: True
    let ?w = "window_size (arena_allocated_and_unused st) (shard_block_size st)"
    from r pick short have ca: "arena_allocated_and_unused st = arena_AllocatedAndUnused A (arena st)"
      by (auto simp: shard_path_def AccessAtCore_def Let_def split: if_splits)
    show thesis
    proof (cases "bytes \<le> arena_allocated_and_unused st \<and> arena_IsInInlineBlock A (arena st)")
      case True
      then have "snd (shard_path A sc bytes func cpu st) = call_func A func c st"
        using shard_path_inline [OF pick short ca] by simp
      with r obtain a where "func (arena st) = Some (rv, a)" "st' = Fixup A (st\<lparr>arena := a\<rparr>)" "cpu' = c"
        by (auto simp: call_func_def split: option.splits)
      with pick short ca True show thesis by (intro shortcut) simp_all
    next
      case False
      from r pick short ca False obtain p a where pa: "arena_AllocateAligned A ?w 0 (arena st) = Some (p, a)"
        by (cases "arena_AllocateAligned A ?w 0 (arena st)")
          (auto simp: shard_path_def AccessAtCore_def Let_def)
      have b: "bump ((shards st ! j)\<lparr>free_begin := p\<rparr>) ?w bytes =
          bump \<lparr>free_begin = p, allocated_and_unused = ?w\<rparr> ?w bytes"
        by (simp add: bump_eq)
      from r have "cpu' = c"
        "rv = fst (bump \<lparr>free_begin = p, allocated_and_unused = ?w\<rparr> ?w bytes)"
        "st' = (Fixup A (st\<lparr>arena := a\<rparr>))\<lparr>shards := (shards st)[j :=
                snd (bump \<lparr>free_begin = p, allocated_and_unused = ?w\<rparr> ?w bytes)]\<rparr>"
        by (simp_all add: shard_path_refill [OF pick short ca False refl pa] b)
      with pick short pa ca False show thesis by (intro refill [where w = ?w]) simp_all
    qed
  qed
qed

lemma AllocateImpl_cases:
  assumes r: "snd (AllocateImpl A sc bytes force_arena func tls_cpuid st) = Inr (rv, cpu', st')"
  obtains
    (direct) a where
      "shard_block_size st div 4 < bytes \<or> force_arena \<or>
       tls_cpuid = 0 \<and> allocated_and_unused (AccessAtCore (shards st) 0) = 0 \<and> arena_try_lock sc"
      "cpu' = tls_cpuid"
      "func (arena st) = Some (rv, a)" "st' = Fixup A (st\<lparr>arena := a\<rparr>)"
  | (inline) j evs a where
      "\<not> shard_block_size st div 4 < bytes"
      "pick_shard sc tls_cpuid st = (j, cpu', evs)"
      "allocated_and_unused (shards st ! j) < bytes"
      "arena_allocated_and_unused st = arena_AllocatedAndUnused A (arena st)"
      "bytes \<le> arena_allocated_and_unused st" "arena_IsInInlineBlock A (arena st)"
      "func (arena st) = Some (rv, a)" "st' = Fixup A (st\<lparr>arena := a\<rparr>)"
  | (from_window) j evs where
      "\<not> shard_block_size st div 4 < bytes"
      "pick_shard sc tls_cpuid st = (j, cpu', evs)"
      "bytes \<le> allocated_and_unused (shards st ! j)"
      "rv = fst (bump (shards st ! j) (allocated_and_unused (shards st ! j)) bytes)"
      "st' = st\<lparr>shards := (shards st)[j :=
                snd (bump (shards st ! j) (allocated_and_unused (shards st ! j)) bytes)]\<rparr>"
  | (from_refill) j evs p a w where
      "\<not> shard_block_size st div 4 < bytes"
      "pick_shard sc tls_cpuid st = (j, cpu', evs)"
      "allocated_and_unused (shards st ! j) < bytes"
      "arena_allocated_and_unused st = arena_AllocatedAndUnused A (arena st)"
      "\<not> (bytes \<le> arena_allocated_and_unused st \<and> arena_IsInInlineBlock A (arena st))"
      "w = window_size (arena_allocated_and_unused st) (shard_block_size st)"
      "arena_AllocateAligned A w 0 (arena st) = Some (p, a)"
      "rv = fst (bump \<lparr>free_begin = p, allocated_and_unused = w\<rparr> w bytes)"
      "st' = (Fixup A (st\<lparr>arena := a\<rparr>))\<lparr>shards := (shards st)[j :=
                snd (bump \<lparr>free_begin = p, allocated_and_unused = w\<rparr> w bytes)]\<rparr>"
proof (cases "shard_block_size st div 4 < bytes \<or> force_arena \<or>
       tls_cpuid = 0 \<and> allocated_and_unused (AccessAtCore (shards st) 0) = 0 \<and> arena_try_lock sc")
  case True
  with r have "call_func A func tls_cpuid st = Inr (rv, cpu', st')"
    by (simp add: AllocateImpl_direct)
  then obtain a where "func (arena st) = Some (rv, a)" "st' = Fixup A (st\<lparr>arena := a\<rparr>)" "cpu' = tls_cpuid"
    by (auto simp: call_func_def split: option.splits)
  with True show thesis by (intro direct) simp_all
next
  case False
  then have small: "\<not> shard_block_size st div 4 < bytes" by simp
  from False r have "snd (shard_path A sc bytes func tls_cpuid st) = Inr (rv, cpu', st')"
    by (simp add: AllocateImpl_shard)
  then show thesis
  proof (cases rule: shard_path_cases)
    case (shortcut j evs a)
    with small show ?thesis by (intro inline)
  next
    case (hit j evs)
    with small show ?thesis by (intro from_window)
  next
    case (refill j evs p a w)
    with small show ?thesis by (intro from_refill)
  qed
qed

section \<open>Re-pick and the thread-local core id\<close>

lemma unat_Size:
  assumes "slots_ok slots"
  shows "unat (Size slots) = length slots"
proof -
  from assms obtain k where k: "k < 64" "length slots = 2 ^ k" "Size slots = 2 ^ k"
    by (rule slots_okE)
  show ?thesis by (simp add: k unat_pow)
qed

lemma Repick_unat:
  assumes "slots_ok (shards st)"
  shows "unat (snd (Repick st cpu)) = length (shards st) + cpu mod length (shards st)"
proof -
  from assms obtain k where k: "k < 64" "length (shards st) = 2 ^ k" "Size (shards st) = 2 ^ k"
    by (rule slots_okE)
  have "cpu mod 2 ^ k < (2::nat) ^ k" by simp
  then show ?thesis
    using or_pow_unat [OF k(1), of "cpu mod 2 ^ k"] by (simp add: Repick_eq k)
qed

lemma Repick_nonzero:
  assumes "slots_ok (shards st)"
  shows "snd (Repick st cpu) \<noteq> 0"
proof
  assume "snd (Repick st cpu) = 0"
  then have "unat (snd (Repick st cpu)) = 0" by simp
  moreover from assms obtain k where "length (shards st) = 2 ^ k" by (rule slots_okE)
  ultimately show False using Repick_unat [OF assms, of cpu] by simp
qed

lemma AllocateImpl_length:
  assumes "snd (AllocateImpl A sc bytes force_arena func tls_cpuid st) = Inr (rv, cpu', st')"
  shows "length (shards st') = length (shards st)"
  using assms by (cases rule: AllocateImpl_cases) (simp_all add: Fixup_def)

lemma AllocateImpl_tls:
  assumes "snd (AllocateImpl A sc bytes force_arena func tls_cpuid st) = Inr (rv, cpu', st')"
  shows "cpu' = tls_cpuid \<or> cpu' = snd (Repick st (cur_cpu sc))"
  using assms
proof (cases rule: AllocateImpl_cases)
  case (direct a)
  then show ?thesis by simp
next
  case (inline j evs a)
  then show ?thesis using pick_shard_tls by blast
next
  case (from_window j evs)
  then show ?thesis using pick_shard_tls by blast
next
  case (from_refill j evs p a w)
  then show ?thesis using pick_shard_tls by blast
qed

lemma AllocateImpl_tls_nonzero:
  assumes "slots_ok (shards st)" and "tls_cpuid \<noteq> 0"
    and "snd (AllocateImpl A sc bytes force_arena func tls_cpuid st) = Inr (rv, cpu', st')"
  shows "cpu' \<noteq> 0"
  using AllocateImpl_tls [OF assms(3)] assms(2) Repick_nonzero [OF assms(1)] by auto

lemma do_call_cases:
  assumes "snd (do_call A sc c tls_cpuid st) = Inr (rv, cpu', st')"
  obtains bytes force_arena func where
    "snd (AllocateImpl A sc bytes force_arena func tls_cpuid st) = Inr (rv, cpu', st')"
    "bytes = served_bytes c"
    "func = arena_Allocate A bytes \<or> (\<exists>h. func = arena_AllocateAligned A bytes h)"
proof (cases c)
  case (CallAllocate b)
  with assms that show thesis by (simp add: Allocate_def)
next
  case (CallAllocateAligned b h)
  with assms have "snd (AllocateAligned A sc b h tls_cpuid st) = Inr (rv, cpu', st')"
    by simp
  then have "snd (AllocateImpl A sc (rounded_up b) (h \<noteq> 0)
      (arena_AllocateAligned A (rounded_up b) h) tls_cpuid st) = Inr (rv, cpu', st')"
    by (simp add: AllocateAligned_def split: if_splits)
  then show thesis
    using CallAllocateAligned by (intro that [of "rounded_up b" "h \<noteq> 0"]) auto
qed

lemma run_tls_nonzero:
  assumes "run A rs tls st = Inr (blocks, tls', st')" and "slots_ok (shards st)" and "tls t \<noteq> 0"
  shows "tls' t \<noteq> 0 \<and> slots_ok (shards st')"
  using assms
proof (induction rs arbitrary: tls st blocks)
  case Nil
  then show ?case by simp
next
  case (Cons r rs)
  from Cons.prems(1) obtain rv cpu st1 bs where
    step: "snd (do_call A (req_sched r) (req_call r) (tls (req_thread r)) st) = Inr (rv, cpu, st1)"
    and rest: "run A rs (tls(req_thread r := cpu)) st1 = Inr (bs, tls', st')"
    by (auto split: sum.splits)
  from step obtain bytes force_arena func where
    impl: "snd (AllocateImpl A (req_sched r) bytes force_arena func (tls (req_thread r)) st) = Inr (rv, cpu, st1)"
    by (rule do_call_cases)
  have ok1: "slots_ok (shards st1)"
    using AllocateImpl_length [OF impl] Cons.prems(2) by (simp add: slots_ok_def)
  have "(tls(req_thread r := cpu)) t \<noteq> 0"
    using AllocateImpl_tls_nonzero [OF Cons.prems(2) _ impl] Cons.prems(3) by auto
  with Cons.IH [OF rest ok1] show ?case by simp
qed

lemma Repick_range:
  assumes ok: "slots_ok (shards st)"
  shows "Size (shards st) \<le> snd (Repick st cpu)"
    and "unat (snd (Repick st cpu)) < 2 * unat (Size (shards st))"
proof -
  have u: "unat (snd (Repick st cpu)) = unat (Size (shards st)) + cpu mod length (shards st)"
    by (simp add: Repick_unat [OF ok] unat_Size [OF ok])
  from ok obtain k where k: "length (shards st) = 2 ^ k" by (rule slots_okE)
  have m: "cpu mod length (shards st) < length (shards st)" by (simp add: k)
  show "Size (shards st) \<le> snd (Repick st cpu)"
    by (simp add: word_le_nat_alt u)
  show "unat (snd (Repick st cpu)) < 2 * unat (Size (shards st))"
    using m by (simp add: u unat_Size [OF ok])
qed

lemma AllocateImpl_repicks:
  assumes "\<not> (shard_block_size st div 4 < bytes \<or> force_arena \<or>
       tls_cpuid = 0 \<and> allocated_and_unused (AccessAtCore (shards st) 0) = 0 \<and> arena_try_lock sc)"
    and "\<not> shard_try_lock sc"
    and "snd (AllocateImpl A sc bytes force_arena func tls_cpuid st) = Inr (rv, cpu', st')"
  shows "cpu' = snd (Repick st (cur_cpu sc))"
  using assms(3)
proof (cases rule: AllocateImpl_cases)
  case (direct a)
  with assms(1) show ?thesis by simp
next
  case (inline j evs a)
  with assms(2) show ?thesis by (auto simp: pick_shard_def Let_def split: prod.splits)
next
  case (from_window j evs)
  with assms(2) show ?thesis by (auto simp: pick_shard_def Let_def split: prod.splits)
next
  case (from_refill j evs p a w)
  with assms(2) show ?thesis by (auto simp: pick_shard_def Let_def split: prod.splits)
qed

lemma no_probe_after_repick:
  assumes "tls_cpuid \<noteq> 0"
  shows "\<not> list_ex is_arena_try_lock (fst (AllocateImpl A sc bytes force_arena func tls_cpuid st))"
  using assms shard_path_no_arena_try_lock [of A sc bytes func tls_cpuid st]
  by (simp add: AllocateImpl_def)

lemma slots_ok_fresh: "slots_ok (shards fresh)"
  by (rule slots_ok_8) (simp add: fresh_eq)

lemma length_fresh: "length (shards fresh) = 8"
  by (simp add: fresh_eq)

lemma Size_fresh: "Size (shards fresh) = 8"
  by (simp add: Size_def length_fresh)

text \<open>
  Claim C6, as amended. \<^verbatim>\<open>Repick\<close> sets the thread-local virtual core id to
  \<open>index | slot_count\<close>, where \<open>index\<close> is the slot index of the current execution
  context and \<open>slot_count\<close> a power of two. The index is below the slot count, so the
  id is \<open>slot_count + index\<close>: every repick, the first and each later one, yields an
  id in the one range from \<open>slot_count\<close> up to, not including, \<open>2 * slot_count\<close>.
  The ids of successive repicks follow the cores the thread runs on; nothing makes
  them grow. A call on the shard path whose \<^verbatim>\<open>try_lock\<close> on the shard fails leaves
  the id of \<^verbatim>\<open>Repick\<close> in \<^verbatim>\<open>tls_cpuid\<close>.
\<close>

theorem Repick_sets_tls_cpuid:
  assumes ok: "slots_ok (shards st)"
  shows "Repick st cpu =
           (cpu mod length (shards st),
            of_nat (cpu mod length (shards st)) OR Size (shards st)) \<and>
         cpu mod length (shards st) < length (shards st) \<and>
         unat (Size (shards st)) = length (shards st) \<and>
         unat (snd (Repick st cpu)) = length (shards st) + cpu mod length (shards st) \<and>
         Size (shards st) \<le> snd (Repick st cpu) \<and>
         unat (snd (Repick st cpu)) < 2 * unat (Size (shards st)) \<and>
         (\<not> (shard_block_size st div 4 < bytes \<or> force_arena \<or>
             tls_cpuid = 0 \<and> allocated_and_unused (AccessAtCore (shards st) 0) = 0 \<and>
             arena_try_lock sc) \<and>
          \<not> shard_try_lock sc \<and>
          snd (AllocateImpl A sc bytes force_arena func tls_cpuid st) = Inr (rv, cpu', st') \<longrightarrow>
          cpu' = snd (Repick st (cur_cpu sc)))"
proof -
  from ok obtain k where k: "length (shards st) = 2 ^ k" by (rule slots_okE)
  have m: "cpu mod length (shards st) < length (shards st)" by (simp add: k)
  show ?thesis
    using Repick_eq [of st cpu] m unat_Size [OF ok] Repick_unat [OF ok, of cpu]
      Repick_range [OF ok, of cpu] AllocateImpl_repicks [of st bytes force_arena tls_cpuid sc A func rv cpu' st']
    by blast
qed

theorem Repick_sets_tls_cpuid_witness:
  "slots_ok (shards fresh) \<and> Repick fresh 11 = (3, 11) \<and> Size (shards fresh) = 8 \<and>
   Size (shards fresh) \<le> snd (Repick fresh 11) \<and> unat (snd (Repick fresh 11)) < 16"
  using Repick_sets_tls_cpuid [OF slots_ok_fresh, of 11] slots_ok_fresh
  by (simp add: Size_fresh length_fresh)

text \<open>
  Claim C6 as stated fails: with eight slots, a thread repicked on core 3 and then on
  core 1 gets the ids 11 and then 9. The second is smaller, and both lie in the same
  range from 8 to 15.
\<close>

theorem Repick_sets_tls_cpuid_counterexample:
  "snd (Repick fresh 3) = 11 \<and> snd (Repick fresh 1) = 9 \<and>
   snd (Repick fresh 1) < snd (Repick fresh 3) \<and>
   (8::size_t) \<le> snd (Repick fresh 3) \<and> snd (Repick fresh 3) < 16 \<and>
   (8::size_t) \<le> snd (Repick fresh 1) \<and> snd (Repick fresh 1) < 16"
  by (simp add: Repick_eq Size_fresh length_fresh)

lemma ta_alloc_13:
  "arena_Allocate TestArena 13 (arena fresh) =
     Some (4096, \<lparr>ta_next = 4109, ta_unused = 2035, ta_inline = True,
         ta_block_size = 4096, ta_allocated = 2048, ta_irregular = 0\<rparr>)"
  by (simp add: fresh_eq TestArena_def ta_alloc_def Let_def)

lemma shard_path_shard_lock:
  "list_ex is_shard_lock (fst (shard_path A sc bytes func cpu st)) \<longleftrightarrow> \<not> shard_try_lock sc"
  by (auto simp: shard_path_def pick_shard_def Let_def Repick_eq split: prod.splits option.splits)

lemma AllocateImpl_shard_lock:
  "list_ex is_shard_lock (fst (AllocateImpl A sc bytes force_arena func tls_cpuid st)) \<longleftrightarrow>
     \<not> (shard_block_size st div 4 < bytes \<or> force_arena \<or>
        tls_cpuid = 0 \<and> allocated_and_unused (AccessAtCore (shards st) 0) = 0 \<and>
        arena_try_lock sc) \<and> \<not> shard_try_lock sc"
  using shard_path_shard_lock [of A sc bytes func tls_cpuid st]
  by (auto simp: AllocateImpl_def case_prod_unfold Let_def)

lemma do_call_repicks:
  assumes "list_ex is_shard_lock (fst (do_call A sc c tls_cpuid st))"
    and "snd (do_call A sc c tls_cpuid st) = Inr (rv, cpu', st')"
  shows "cpu' = snd (Repick st (cur_cpu sc))"
proof (cases c)
  case (CallAllocate b)
  with assms show ?thesis
    using AllocateImpl_repicks [of st b False tls_cpuid sc A "arena_Allocate A b" rv cpu' st']
    by (simp add: Allocate_def AllocateImpl_shard_lock)
next
  case (CallAllocateAligned b h)
  with assms have ok: "rounded_up b \<ge> b \<and> rounded_up b < b + sizeof_void_ptr \<and>
         rounded_up b mod sizeof_void_ptr = 0"
    by (simp add: AllocateAligned_def split: if_splits)
  with assms CallAllocateAligned show ?thesis
    using AllocateImpl_repicks [of st "rounded_up b" "h \<noteq> 0" tls_cpuid sc A
        "arena_AllocateAligned A (rounded_up b) h" rv cpu' st']
    by (simp add: AllocateAligned_def AllocateImpl_shard_lock)
qed

lemma do_call_length:
  assumes "snd (do_call A sc c tls_cpuid st) = Inr (rv, cpu', st')"
  shows "length (shards st') = length (shards st)"
  using assms by (rule do_call_cases) (rule AllocateImpl_length)

lemma run_after_repick:
  assumes ok: "slots_ok (shards st)"
    and run: "run A (r # rs) tls st = Inr (blocks, tls', st')"
    and ev: "list_ex is_shard_lock
              (fst (do_call A (req_sched r) (req_call r) (tls (req_thread r)) st))"
  shows "tls' (req_thread r) \<noteq> 0"
    and "rs = [] \<Longrightarrow> tls' (req_thread r) = snd (Repick st (cur_cpu (req_sched r)))"
proof -
  from run obtain rv cpu st1 bs where
    step: "snd (do_call A (req_sched r) (req_call r) (tls (req_thread r)) st) = Inr (rv, cpu, st1)"
    and rest: "run A rs (tls(req_thread r := cpu)) st1 = Inr (bs, tls', st')"
    by (auto split: sum.splits)
  have c: "cpu = snd (Repick st (cur_cpu (req_sched r)))"
    using ev step by (rule do_call_repicks)
  then have nz: "cpu \<noteq> 0" using Repick_nonzero [OF ok] by simp
  have ok1: "slots_ok (shards st1)"
    using do_call_length [OF step] ok by (simp add: slots_ok_def)
  show "tls' (req_thread r) \<noteq> 0"
    using run_tls_nonzero [OF rest ok1, of "req_thread r"] nz by simp
  show "tls' (req_thread r) = snd (Repick st (cur_cpu (req_sched r)))" if "rs = []"
    using rest that c by auto
qed

lemma pick_fresh_repick:
  "pick_shard \<lparr>arena_try_lock = False, shard_try_lock = False, cur_cpu = 3\<rparr> 0 fresh =
     (3, 11, [ShardTryLock 0 False, ShardLock 3])"
  by (simp add: pick_shard_def Repick_eq Size_fresh length_fresh)

lemma step_13_repick:
  "Allocate TestArena \<lparr>arena_try_lock = False, shard_try_lock = False, cur_cpu = 3\<rparr> 13 0 fresh =
     ([ArenaTryLock False, ShardTryLock 0 False, ShardLock 3, ArenaLock, ArenaUnlock,
       ShardUnlock 3],
      Inr (4096, 11, after_13))"
proof -
  let ?sc = "\<lparr>arena_try_lock = False, shard_try_lock = False, cur_cpu = 3\<rparr>"
  have sp: "shard_path TestArena ?sc 13 (arena_Allocate TestArena 13) 0 fresh =
     ([ShardTryLock 0 False, ShardLock 3] @ [ArenaLock, ArenaUnlock, ShardUnlock 3],
      call_func TestArena (arena_Allocate TestArena 13) 11 fresh)"
    by (rule shard_path_inline [OF pick_fresh_repick])
      (simp_all add: fresh_eq replicate_8 Shard_ctor_def TestArena_def)
  have cf: "call_func TestArena (arena_Allocate TestArena 13) 11 fresh = Inr (4096, 11, after_13)"
    by (simp add: call_func_def ta_alloc_13 after_13_def)
  have c1: "\<not> shard_block_size fresh div 4 < 13"
    and c2: "allocated_and_unused (AccessAtCore (shards fresh) 0) = 0"
    by (simp_all add: fresh_eq AccessAtCore_def replicate_8 Shard_ctor_def)
  have "AllocateImpl TestArena ?sc 13 False (arena_Allocate TestArena 13) 0 fresh =
     (ArenaTryLock False # fst (shard_path TestArena ?sc 13 (arena_Allocate TestArena 13) 0 fresh),
      snd (shard_path TestArena ?sc 13 (arena_Allocate TestArena 13) 0 fresh))"
    by (simp add: AllocateImpl_def case_prod_unfold Let_def c1 c2)
  then show ?thesis by (simp add: Allocate_def sp cf)
qed

text \<open>
  Claim C10. \<^verbatim>\<open>Repick\<close> sets the thread-local id to \<open>index | slot_count\<close>, which
  is at least \<open>slot_count\<close>, below \<open>2 * slot_count\<close> and so not 0. A call made with
  that id never attempts the \<^verbatim>\<open>try_lock\<close> of the startup probe, and in every
  sequence of calls the id of a thread that is not 0 stays different from 0. For
  every value \<open>x\<close> of the id the slot index \<open>x & (slot_count - 1)\<close> is below the slot
  count.

  A call runs \<^verbatim>\<open>Repick\<close> exactly when it blocks on the mutex of a shard (line 161),
  which is when it takes the shard path and the \<^verbatim>\<open>try_lock\<close> on its shard fails.
  Such a call, whatever the id of the thread was before, 0 included, leaves in
  \<^verbatim>\<open>tls_cpuid\<close> the id that \<^verbatim>\<open>Repick\<close> computed, which is not 0. So in every
  sequence of calls that begins with a call in which thread \<open>t\<close> repicks, the id of
  \<open>t\<close> is the one of \<^verbatim>\<open>Repick\<close> right after that call, it is different from 0 at
  the end of the sequence, and a call of \<open>t\<close> made then does not attempt the
  \<^verbatim>\<open>try_lock\<close> of the probe.
\<close>

theorem repicked_thread_never_probes:
  assumes ok: "slots_ok (shards st)"
  shows "snd (Repick st cpu) = of_nat (cpu mod length (shards st)) OR Size (shards st) \<and>
         Size (shards st) \<le> snd (Repick st cpu) \<and>
         unat (snd (Repick st cpu)) < 2 * unat (Size (shards st)) \<and>
         snd (Repick st cpu) \<noteq> 0 \<and>
         \<not> list_ex is_arena_try_lock
              (fst (AllocateImpl A sc bytes force_arena func (snd (Repick st cpu)) st2)) \<and>
         (\<forall>rs tls blocks tls' st'.
             run A rs tls st = Inr (blocks, tls', st') \<and> tls t \<noteq> 0 \<longrightarrow>
             tls' t \<noteq> 0 \<and>
             \<not> list_ex is_arena_try_lock
                  (fst (AllocateImpl A sc bytes force_arena func (tls' t) st'))) \<and>
         (\<forall>x. unat (x AND (Size (shards st) - 1)) < length (shards st) \<and>
              x AND (Size (shards st) - 1) < Size (shards st)) \<and>
         (list_ex is_shard_lock (fst (AllocateImpl A sc1 bytes1 force_arena1 func1 tls_cpuid st)) \<longleftrightarrow>
            \<not> (shard_block_size st div 4 < bytes1 \<or> force_arena1 \<or>
               tls_cpuid = 0 \<and> allocated_and_unused (AccessAtCore (shards st) 0) = 0 \<and>
               arena_try_lock sc1) \<and>
            \<not> shard_try_lock sc1) \<and>
         (list_ex is_shard_lock (fst (AllocateImpl A sc1 bytes1 force_arena1 func1 tls_cpuid st)) \<and>
          snd (AllocateImpl A sc1 bytes1 force_arena1 func1 tls_cpuid st) = Inr (rv, cpu1, st1) \<longrightarrow>
            cpu1 = snd (Repick st (cur_cpu sc1)) \<and> cpu1 \<noteq> 0 \<and>
            \<not> list_ex is_arena_try_lock
                 (fst (AllocateImpl A sc bytes force_arena func cpu1 st2))) \<and>
         (run A (r # rs) tls st = Inr (blocks, tls', st') \<and>
          list_ex is_shard_lock
            (fst (do_call A (req_sched r) (req_call r) (tls (req_thread r)) st)) \<longrightarrow>
            (rs = [] \<longrightarrow> tls' (req_thread r) = snd (Repick st (cur_cpu (req_sched r)))) \<and>
            tls' (req_thread r) \<noteq> 0 \<and>
            \<not> list_ex is_arena_try_lock
                 (fst (AllocateImpl A sc bytes force_arena func (tls' (req_thread r)) st')))"
proof -
  have nz: "snd (Repick st cpu) \<noteq> 0" for cpu using ok by (rule Repick_nonzero)
  have a: "\<forall>rs tls blocks tls' st'.
             run A rs tls st = Inr (blocks, tls', st') \<and> tls t \<noteq> 0 \<longrightarrow>
             tls' t \<noteq> 0 \<and>
             \<not> list_ex is_arena_try_lock
                  (fst (AllocateImpl A sc bytes force_arena func (tls' t) st'))"
    using run_tls_nonzero [OF _ ok] no_probe_after_repick by blast
  have b: "\<forall>x. unat (x AND (Size (shards st) - 1)) < length (shards st) \<and>
              x AND (Size (shards st) - 1) < Size (shards st)"
    using masked_index_in_range [OF ok] by (simp add: word_less_nat_alt unat_Size [OF ok])
  have c: "cpu1 = snd (Repick st (cur_cpu sc1)) \<and> cpu1 \<noteq> 0 \<and>
            \<not> list_ex is_arena_try_lock
                 (fst (AllocateImpl A sc bytes force_arena func cpu1 st2))"
    if ev: "list_ex is_shard_lock (fst (AllocateImpl A sc1 bytes1 force_arena1 func1 tls_cpuid st))"
      and r: "snd (AllocateImpl A sc1 bytes1 force_arena1 func1 tls_cpuid st) = Inr (rv, cpu1, st1)"
  proof -
    from ev have "\<not> (shard_block_size st div 4 < bytes1 \<or> force_arena1 \<or>
               tls_cpuid = 0 \<and> allocated_and_unused (AccessAtCore (shards st) 0) = 0 \<and>
               arena_try_lock sc1)" and "\<not> shard_try_lock sc1"
      unfolding AllocateImpl_shard_lock by simp_all
    then have e: "cpu1 = snd (Repick st (cur_cpu sc1))"
      using r by (rule AllocateImpl_repicks)
    then have "cpu1 \<noteq> 0" using nz by simp
    with e show ?thesis using no_probe_after_repick by blast
  qed
  have d: "(rs = [] \<longrightarrow> tls' (req_thread r) = snd (Repick st (cur_cpu (req_sched r)))) \<and>
            tls' (req_thread r) \<noteq> 0 \<and>
            \<not> list_ex is_arena_try_lock
                 (fst (AllocateImpl A sc bytes force_arena func (tls' (req_thread r)) st'))"
    if "run A (r # rs) tls st = Inr (blocks, tls', st')"
      and "list_ex is_shard_lock
            (fst (do_call A (req_sched r) (req_call r) (tls (req_thread r)) st))"
    using run_after_repick [OF ok that] no_probe_after_repick by blast
  have e: "list_ex is_shard_lock (fst (AllocateImpl A sc1 bytes1 force_arena1 func1 tls_cpuid st)) \<longleftrightarrow>
            \<not> (shard_block_size st div 4 < bytes1 \<or> force_arena1 \<or>
               tls_cpuid = 0 \<and> allocated_and_unused (AccessAtCore (shards st) 0) = 0 \<and>
               arena_try_lock sc1) \<and>
            \<not> shard_try_lock sc1"
    by (rule AllocateImpl_shard_lock)
  have f: "snd (Repick st cpu) = of_nat (cpu mod length (shards st)) OR Size (shards st)"
    by (simp add: Repick_eq)
  show ?thesis
    apply (intro conjI)
    subgoal by (rule f)
    subgoal by (rule Repick_range(1) [OF ok])
    subgoal by (rule Repick_range(2) [OF ok])
    subgoal by (rule nz)
    subgoal by (rule no_probe_after_repick [OF nz])
    subgoal by (rule a)
    subgoal by (rule b)
    subgoal by (rule e)
    subgoal using c by blast
    subgoal using d by blast
    done
qed

theorem repicked_thread_never_probes_witness:
  "slots_ok (shards fresh) \<and> snd (Repick fresh 3) = 11 \<and>
   Allocate TestArena \<lparr>arena_try_lock = False, shard_try_lock = False, cur_cpu = 3\<rparr> 13 0 fresh =
     ([ArenaTryLock False, ShardTryLock 0 False, ShardLock 3, ArenaLock, ArenaUnlock,
       ShardUnlock 3],
      Inr (4096, 11, after_13)) \<and>
   run TestArena
     [\<lparr>req_thread = 0, req_call = CallAllocate 13,
       req_sched = \<lparr>arena_try_lock = False, shard_try_lock = False, cur_cpu = 3\<rparr>\<rparr>]
     (\<lambda>t. 0) fresh = Inr ([(4096, 13)], (\<lambda>t. 0)(0 := 11), after_13) \<and>
   \<not> list_ex is_arena_try_lock
       (fst (AllocateImpl TestArena \<lparr>arena_try_lock = True, shard_try_lock = True, cur_cpu = 0\<rparr>
          13 False (arena_Allocate TestArena 13) 11 after_13)) \<and>
   unat ((13::size_t) AND (Size (shards fresh) - 1)) < length (shards fresh)"
proof -
  let ?r = "\<lparr>req_thread = 0, req_call = CallAllocate 13,
       req_sched = \<lparr>arena_try_lock = False, shard_try_lock = False, cur_cpu = 3\<rparr>\<rparr>"
  have run: "run TestArena [?r] (\<lambda>t. 0) fresh = Inr ([(4096, 13)], (\<lambda>t. 0)(0 := 11), after_13)"
    by (simp add: step_13_repick)
  have ev: "list_ex is_shard_lock
      (fst (do_call TestArena (req_sched ?r) (req_call ?r) ((\<lambda>t. 0) (req_thread ?r)) fresh))"
    by (simp add: step_13_repick)
  have rp: "snd (Repick fresh 3) = 11"
    by (simp add: Repick_eq Size_fresh length_fresh)
  note th = repicked_thread_never_probes [where st = fresh and cpu = 3 and A = TestArena
      and sc = "\<lparr>arena_try_lock = True, shard_try_lock = True, cur_cpu = 0\<rparr>"
      and bytes = 13 and force_arena = False and func = "arena_Allocate TestArena 13"
      and ?st2.0 = after_13 and t = 0 and r = ?r and rs = "[]" and tls = "\<lambda>t. 0"
      and blocks = "[(4096, 13)]" and tls' = "(\<lambda>t. 0)(0 := 11)" and st' = after_13,
      OF slots_ok_fresh]
  from th run ev have
    "\<not> list_ex is_arena_try_lock
       (fst (AllocateImpl TestArena \<lparr>arena_try_lock = True, shard_try_lock = True, cur_cpu = 0\<rparr>
          13 False (arena_Allocate TestArena 13) 11 after_13))"
    by simp
  moreover from th have "unat ((13::size_t) AND (Size (shards fresh) - 1)) < length (shards fresh)"
    by blast
  ultimately show ?thesis
    using slots_ok_fresh rp step_13_repick run by simp
qed

section \<open>The query operations\<close>

lemma fold_nth_sum:
  fixes f :: "'b \<Rightarrow> size_t"
  shows "fold (\<lambda>i total. total + f (xs ! i)) [0..<length xs] a = a + sum_list (map f xs)"
proof (induction xs arbitrary: a rule: rev_induct)
  case Nil
  then show ?case by simp
next
  case (snoc x xs)
  have "fold (\<lambda>i total. total + f ((xs @ [x]) ! i)) [0..<length xs] a =
        fold (\<lambda>i total. total + f (xs ! i)) [0..<length xs] a"
    by (rule fold_cong) (simp_all add: nth_append)
  then show ?case
    by (simp add: snoc.IH add.assoc)
qed

lemma ShardAllocatedAndUnused_sum:
  assumes "slots_ok (shards st)"
  shows "ShardAllocatedAndUnused st = sum_list (map allocated_and_unused (shards st))"
  using fold_nth_sum [of allocated_and_unused "shards st" 0]
  by (simp add: ShardAllocatedAndUnused_def unat_Size [OF assms] AccessAtCore_def [abs_def])

lemma slots_ok_refill_state: "slots_ok (shards refill_state)"
  by (rule slots_ok_8) (simp add: refill_state_eq)

text \<open>
  Claim C9, as amended. None of \<^verbatim>\<open>ApproximateMemoryUsage\<close>,
  \<^verbatim>\<open>MemoryAllocatedBytes\<close>, \<^verbatim>\<open>AllocatedAndUnused\<close>, \<^verbatim>\<open>IrregularBlockNum\<close> and
  \<^verbatim>\<open>BlockSize\<close> allocates or changes the arena, the shards or the cached
  counters: each leaves the state it found. \<^verbatim>\<open>ApproximateMemoryUsage\<close> locks the
  arena mutex once and returns the arena's approximate usage minus the sum of the
  remaining capacities of all shards (in \<^verbatim>\<open>size_t\<close> arithmetic). The others touch
  no mutex: \<^verbatim>\<open>MemoryAllocatedBytes\<close> and \<^verbatim>\<open>IrregularBlockNum\<close> return their cached
  counter, \<^verbatim>\<open>AllocatedAndUnused\<close> the cached counter of the arena plus the sum of the
  shards' capacities, and \<^verbatim>\<open>BlockSize\<close> the block size that the arena itself
  reports, which is no cached counter.
\<close>

theorem queries_change_nothing:
  assumes ok: "slots_ok (shards st)"
  shows "ApproximateMemoryUsage A st =
           ([ArenaLock, ArenaUnlock],
            arena_ApproximateMemoryUsage A (arena st) -
              sum_list (map allocated_and_unused (shards st)), st) \<and>
         MemoryAllocatedBytes st = ([], memory_allocated_bytes st, st) \<and>
         AllocatedAndUnused st =
           ([], arena_allocated_and_unused st +
                  sum_list (map allocated_and_unused (shards st)), st) \<and>
         IrregularBlockNum st = ([], irregular_block_num st, st) \<and>
         BlockSize A st = ([], arena_BlockSize A (arena st), st)"
  by (simp add: ApproximateMemoryUsage_def MemoryAllocatedBytes_def AllocatedAndUnused_def
      IrregularBlockNum_def BlockSize_def ShardAllocatedAndUnused_sum [OF ok])

theorem queries_change_nothing_witness:
  "slots_ok (shards refill_state) \<and>
   ApproximateMemoryUsage TestArena refill_state = ([ArenaLock, ArenaUnlock], 1400, refill_state) \<and>
   AllocatedAndUnused refill_state = ([], 648, refill_state) \<and>
   BlockSize TestArena refill_state = ([], 4096, refill_state)"
proof -
  have s: "sum_list (map allocated_and_unused (shards refill_state)) = 48"
    by (simp add: refill_state_eq replicate_8 Shard_ctor_def)
  have a: "arena_ApproximateMemoryUsage TestArena (arena refill_state) = 1448"
    "arena_allocated_and_unused refill_state = 600"
    "arena_BlockSize TestArena (arena refill_state) = 4096"
    by (simp_all add: refill_state_eq TestArena_def)
  show ?thesis
    using queries_change_nothing [OF slots_ok_refill_state, of TestArena] slots_ok_refill_state
    by (simp add: s a)
qed

text \<open>
  Claim C9 as stated fails for \<^verbatim>\<open>BlockSize\<close>, which it lists among the operations
  that read cached counters: two fresh instances with block sizes 4096 and 8192 have
  the same shards and the same three cached counters, and \<^verbatim>\<open>BlockSize\<close> returns
  4096 for one and 8192 for the other.
\<close>

theorem queries_change_nothing_counterexample:
  "shards (ConcurrentArena_ctor TestArena 3 8192 0) = shards fresh \<and>
   arena_allocated_and_unused (ConcurrentArena_ctor TestArena 3 8192 0) =
     arena_allocated_and_unused fresh \<and>
   memory_allocated_bytes (ConcurrentArena_ctor TestArena 3 8192 0) = memory_allocated_bytes fresh \<and>
   irregular_block_num (ConcurrentArena_ctor TestArena 3 8192 0) = irregular_block_num fresh \<and>
   fst (snd (BlockSize TestArena fresh)) = 4096 \<and>
   fst (snd (BlockSize TestArena (ConcurrentArena_ctor TestArena 3 8192 0))) = 8192"
  by (simp add: fresh_def ConcurrentArena_ctor_def TestArena_def ta_ctor_def Fixup_def
      BlockSize_def)

section \<open>The inline-block shortcut\<close>

lemma cached_ok_Fixup: "cached_ok A (Fixup A st)"
  by (simp add: cached_ok_def Fixup_def)

lemma cached_ok_ctor: "cached_ok A (ConcurrentArena_ctor A size_shift block_size huge_page_size)"
  by (simp add: ConcurrentArena_ctor_def cached_ok_Fixup)

lemma slots_ok_ctor:
  assumes "size_shift < 64"
  shows "slots_ok (shards (ConcurrentArena_ctor A size_shift block_size huge_page_size))"
  using assms
  by (auto simp: ConcurrentArena_ctor_def Fixup_def CoreLocalArray_ctor_def slots_ok_def)

lemma shards_ctor:
  "shards (ConcurrentArena_ctor A size_shift block_size huge_page_size) =
     replicate (2 ^ size_shift) Shard_ctor"
  by (simp add: ConcurrentArena_ctor_def Fixup_def CoreLocalArray_ctor_def)

lemma AllocateImpl_cached_ok:
  assumes "snd (AllocateImpl A sc bytes force_arena func tls_cpuid st) = Inr (rv, cpu', st')"
    and "cached_ok A st"
  shows "cached_ok A st'"
  using assms
  by (cases rule: AllocateImpl_cases) (simp_all add: cached_ok_def Fixup_def)

text \<open>
  Every path that changes the arena ends with \<^verbatim>\<open>Fixup\<close>, so the cached counter is
  that of the arena in every state reached from the constructor, and the assertion of
  line 175 never fails there.
\<close>

lemma run_cached_ok:
  assumes "run A rs tls st = Inr (blocks, tls', st')" and "cached_ok A st"
  shows "cached_ok A st'"
  using assms
proof (induction rs arbitrary: tls st blocks)
  case Nil
  then show ?case by simp
next
  case (Cons r rs)
  from Cons.prems(1) obtain rv cpu st1 bs where
    step: "snd (do_call A (req_sched r) (req_call r) (tls (req_thread r)) st) = Inr (rv, cpu, st1)"
    and rest: "run A rs (tls(req_thread r := cpu)) st1 = Inr (bs, tls', st')"
    by (auto split: sum.splits)
  from step obtain bytes force_arena func where
    impl: "snd (AllocateImpl A (req_sched r) bytes force_arena func (tls (req_thread r)) st) = Inr (rv, cpu, st1)"
    by (rule do_call_cases)
  have "cached_ok A st1"
    using impl Cons.prems(2) by (rule AllocateImpl_cached_ok)
  with rest show ?case by (rule Cons.IH)
qed

lemma shard_path_no_assertion:
  assumes "cached_ok A st"
  shows "snd (shard_path A sc bytes func cpu st) \<noteq> Inl AssertionFailed"
  using assms
  by (auto simp: shard_path_def cached_ok_def call_func_def Let_def
      split: prod.splits option.splits)

lemma bump_nothing:
  assumes "allocated_and_unused s = 0"
  shows "snd (bump s (allocated_and_unused s) 0) = s"
  using assms by (simp add: bump_eq sizeof_void_ptr_def)

lemma AllocateImpl_inline_keeps_shards:
  assumes r: "snd (AllocateImpl A sc bytes force_arena func tls_cpuid st) = Inr (rv, cpu', st')"
    and ok: "slots_ok (shards st)"
    and empty: "\<forall>s\<in>set (shards st). allocated_and_unused s = 0"
    and inl: "arena_IsInInlineBlock A (arena st)"
    and room: "bytes \<le> arena_AllocatedAndUnused A (arena st)"
  shows "shards st' = shards st"
  using r
proof (cases rule: AllocateImpl_cases)
  case (direct a)
  then show ?thesis by (simp add: Fixup_def)
next
  case (inline j evs a)
  then show ?thesis by (simp add: Fixup_def)
next
  case (from_window j evs)
  have j: "j < length (shards st)" using ok from_window(2) by (rule pick_shard_in_range)
  then have z: "allocated_and_unused (shards st ! j) = 0" using empty by simp
  with from_window(3) have "bytes = 0" by simp
  with from_window(5) z show ?thesis
    by (simp add: bump_nothing [OF z, simplified z] z)
next
  case (from_refill j evs p a w)
  with inl room show ?thesis by simp
qed

lemma run_inline_keeps_shards:
  assumes "run A rs tls st = Inr (blocks, tls', st')"
    and "stays_inline A rs tls st"
    and "slots_ok (shards st)"
    and "\<forall>s\<in>set (shards st). allocated_and_unused s = 0"
  shows "shards st' = shards st"
  using assms
proof (induction rs arbitrary: tls st blocks)
  case Nil
  then show ?case by simp
next
  case (Cons r rs)
  from Cons.prems(1) obtain rv cpu st1 bs where
    step: "snd (do_call A (req_sched r) (req_call r) (tls (req_thread r)) st) = Inr (rv, cpu, st1)"
    and rest: "run A rs (tls(req_thread r := cpu)) st1 = Inr (bs, tls', st')"
    by (auto split: sum.splits)
  from Cons.prems(2) step have inl: "arena_IsInInlineBlock A (arena st)"
    and room: "served_bytes (req_call r) \<le> arena_AllocatedAndUnused A (arena st)"
    and stays: "stays_inline A rs (tls(req_thread r := cpu)) st1"
    by simp_all
  from step obtain bytes force_arena func where
    impl: "snd (AllocateImpl A (req_sched r) bytes force_arena func (tls (req_thread r)) st) = Inr (rv, cpu, st1)"
    and b: "bytes = served_bytes (req_call r)"
    by (rule do_call_cases)
  have same: "shards st1 = shards st"
    using impl Cons.prems(3,4) inl room [folded b] by (rule AllocateImpl_inline_keeps_shards)
  show ?case
    using Cons.IH [OF rest stays] Cons.prems(3,4) same by simp
qed

lemma after_13_eq:
  "after_13 = \<lparr>shard_block_size = 512, shards = replicate 8 Shard_ctor,
     arena = \<lparr>ta_next = 4109, ta_unused = 2035, ta_inline = True,
         ta_block_size = 4096, ta_allocated = 2048, ta_irregular = 0\<rparr>,
     arena_allocated_and_unused = 2035, memory_allocated_bytes = 2048,
     irregular_block_num = 0\<rparr>"
  by (simp add: after_13_def fresh_eq Fixup_def TestArena_def)

lemma ta_alloc_24:
  "arena_AllocateAligned TestArena 24 0 (arena after_13) =
     Some (4112, \<lparr>ta_next = 4136, ta_unused = 2008, ta_inline = True,
         ta_block_size = 4096, ta_allocated = 2048, ta_irregular = 0\<rparr>)"
  by (simp add: after_13_eq TestArena_def ta_alloc_def Let_def)

lemma pick_fresh_0:
  "pick_shard \<lparr>arena_try_lock = False, shard_try_lock = True, cur_cpu = 0\<rparr> 0 fresh =
     (0, 0, [ShardTryLock 0 True])"
  by (simp add: pick_shard_def)

lemma step_13:
  "snd (Allocate TestArena \<lparr>arena_try_lock = False, shard_try_lock = True, cur_cpu = 0\<rparr>
          13 0 fresh) = Inr (4096, 0, after_13)"
proof -
  let ?sc = "\<lparr>arena_try_lock = False, shard_try_lock = True, cur_cpu = 0\<rparr>"
  have "snd (AllocateImpl TestArena ?sc 13 False (arena_Allocate TestArena 13) 0 fresh) =
        snd (shard_path TestArena ?sc 13 (arena_Allocate TestArena 13) 0 fresh)"
    by (rule AllocateImpl_shard) (simp add: fresh_eq)
  also have "\<dots> = call_func TestArena (arena_Allocate TestArena 13) 0 fresh"
    by (subst shard_path_inline [OF pick_fresh_0])
      (simp_all add: fresh_eq replicate_8 Shard_ctor_def TestArena_def)
  also have "\<dots> = Inr (4096, 0, after_13)"
    by (simp add: call_func_def ta_alloc_13 after_13_def)
  finally show ?thesis by (simp add: Allocate_def)
qed

lemma rounded_up_20: "rounded_up 20 = 24"
  by (simp add: rounded_up_def sizeof_void_ptr_def)

lemma step_24:
  "snd (AllocateAligned TestArena \<lparr>arena_try_lock = True, shard_try_lock = True, cur_cpu = 2\<rparr>
          20 0 0 after_13) = Inr (4112, 0, after_13_24)"
proof -
  let ?sc = "\<lparr>arena_try_lock = True, shard_try_lock = True, cur_cpu = 2\<rparr>"
  have "snd (AllocateImpl TestArena ?sc 24 False (arena_AllocateAligned TestArena 24 0) 0 after_13) =
        call_func TestArena (arena_AllocateAligned TestArena 24 0) 0 after_13"
    by (rule AllocateImpl_direct)
      (simp add: after_13_eq AccessAtCore_def replicate_8 Shard_ctor_def)
  also have "\<dots> = Inr (4112, 0, after_13_24)"
    by (simp add: call_func_def ta_alloc_24 after_13_24_def)
  finally show ?thesis
    by (simp add: AllocateAligned_def rounded_up_20 sizeof_void_ptr_def)
qed

lemma inline_run_result:
  "run TestArena inline_run (\<lambda>t. 0) fresh =
     Inr ([(4096, 13), (4112, 24)], (\<lambda>t. 0), after_13_24)"
proof -
  have "((\<lambda>t::nat. 0 :: size_t)(0 := 0, 2 := 0)) = (\<lambda>t. 0)"
    by auto
  then show ?thesis
    by (simp add: inline_run_def step_13 step_24 rounded_up_20)
qed

lemma inline_run_stays: "stays_inline TestArena inline_run (\<lambda>t. 0) fresh"
proof -
  have "((\<lambda>t::nat. 0 :: size_t)(0 := 0)) = (\<lambda>t. 0)" by auto
  moreover have "arena_IsInInlineBlock TestArena (arena fresh)"
    "13 \<le> arena_AllocatedAndUnused TestArena (arena fresh)"
    by (simp_all add: fresh_eq TestArena_def)
  moreover have "arena_IsInInlineBlock TestArena (arena after_13)"
    "24 \<le> arena_AllocatedAndUnused TestArena (arena after_13)"
    by (simp_all add: after_13_eq TestArena_def)
  ultimately show ?thesis
    by (simp add: inline_run_def step_13 step_24 rounded_up_20)
qed

text \<open>
  Claim C5. A request on the shard path that finds less than \<open>bytes\<close> in its shard,
  while the cached allocated-and-unused amount \<open>exact\<close> of the arena is at least
  \<open>bytes\<close> and the arena is still inside its inline block, is served by the arena
  itself (the call of \<^verbatim>\<open>func\<close>, then \<^verbatim>\<open>Fixup\<close>), and no shard changes. So, on
  a fresh instance, a sequence of requests that stays within the inline block leaves
  the shards as the constructor made them: no shard has a window, none reports a
  capacity other than 0.
\<close>

theorem inline_block_shortcut:
  "(\<not> (shard_block_size st div 4 < bytes \<or> force_arena \<or>
        tls_cpuid = 0 \<and> allocated_and_unused (AccessAtCore (shards st) 0) = 0 \<and>
        arena_try_lock sc) \<and>
    pick_shard sc tls_cpuid st = (j, cpu', evs) \<and>
    allocated_and_unused (AccessAtCore (shards st) j) < bytes \<and>
    exact = arena_allocated_and_unused st \<and>
    exact = arena_AllocatedAndUnused A (arena st) \<and>
    bytes \<le> exact \<and> arena_IsInInlineBlock A (arena st) \<longrightarrow>
    snd (AllocateImpl A sc bytes force_arena func tls_cpuid st) =
      (case func (arena st) of
         None \<Rightarrow> Inl BadAlloc
       | Some (rv, a) \<Rightarrow> Inr (rv, cpu', Fixup A (st\<lparr>arena := a\<rparr>))) \<and>
    shards (Fixup A (st\<lparr>arena := a\<rparr>)) = shards st) \<and>
   (size_shift < 64 \<and>
    st0 = ConcurrentArena_ctor A size_shift block_size huge_page_size \<and>
    stays_inline A rs tls st0 \<and>
    run A rs tls st0 = Inr (blocks, tls', st') \<longrightarrow>
    shards st' = shards st0 \<and>
    (\<forall>s\<in>set (shards st'). allocated_and_unused s = 0 \<and> free_begin s = 0))"
proof (intro conjI impI)
  assume a: "\<not> (shard_block_size st div 4 < bytes \<or> force_arena \<or>
        tls_cpuid = 0 \<and> allocated_and_unused (AccessAtCore (shards st) 0) = 0 \<and>
        arena_try_lock sc) \<and>
    pick_shard sc tls_cpuid st = (j, cpu', evs) \<and>
    allocated_and_unused (AccessAtCore (shards st) j) < bytes \<and>
    exact = arena_allocated_and_unused st \<and>
    exact = arena_AllocatedAndUnused A (arena st) \<and>
    bytes \<le> exact \<and> arena_IsInInlineBlock A (arena st)"
  then have "snd (AllocateImpl A sc bytes force_arena func tls_cpuid st) =
      snd (shard_path A sc bytes func tls_cpuid st)"
    by (intro AllocateImpl_shard) simp
  also have "\<dots> = call_func A func cpu' st"
    using a by (subst shard_path_inline [where j = j and cpu' = cpu' and evs = evs])
      (auto simp: AccessAtCore_def)
  finally show "snd (AllocateImpl A sc bytes force_arena func tls_cpuid st) =
      (case func (arena st) of
         None \<Rightarrow> Inl BadAlloc
       | Some (rv, a) \<Rightarrow> Inr (rv, cpu', Fixup A (st\<lparr>arena := a\<rparr>)))"
    by (simp add: call_func_def)
  show "shards (Fixup A (st\<lparr>arena := a\<rparr>)) = shards st"
    by (simp add: Fixup_def)
next
  assume b: "size_shift < 64 \<and>
    st0 = ConcurrentArena_ctor A size_shift block_size huge_page_size \<and>
    stays_inline A rs tls st0 \<and>
    run A rs tls st0 = Inr (blocks, tls', st')"
  then have ok: "slots_ok (shards st0)" by (simp add: slots_ok_ctor)
  have e: "\<forall>s\<in>set (shards st0). allocated_and_unused s = 0 \<and> free_begin s = 0"
    using b by (simp add: shards_ctor Shard_ctor_def)
  from b have r: "run A rs tls st0 = Inr (blocks, tls', st')" and si: "stays_inline A rs tls st0"
    by blast+
  from e have e0: "\<forall>s\<in>set (shards st0). allocated_and_unused s = 0" by simp
  show "shards st' = shards st0"
    using r si ok e0 by (rule run_inline_keeps_shards)
  with e show "\<forall>s\<in>set (shards st'). allocated_and_unused s = 0 \<and> free_begin s = 0"
    by simp
qed

theorem inline_block_shortcut_witness:
  "snd (AllocateImpl TestArena \<lparr>arena_try_lock = False, shard_try_lock = True, cur_cpu = 0\<rparr>
          13 False (arena_Allocate TestArena 13) 0 fresh) = Inr (4096, 0, after_13) \<and>
   run TestArena inline_run (\<lambda>t. 0) fresh =
     Inr ([(4096, 13), (4112, 24)], (\<lambda>t. 0), after_13_24) \<and>
   stays_inline TestArena inline_run (\<lambda>t. 0) fresh \<and>
   shards after_13_24 = shards fresh \<and>
   list_all (\<lambda>s. allocated_and_unused s = 0 \<and> free_begin s = 0) (shards after_13_24)"
proof -
  let ?sc = "\<lparr>arena_try_lock = False, shard_try_lock = True, cur_cpu = 0\<rparr>"
  note th = inline_block_shortcut [where A = TestArena and st = fresh and bytes = 13
      and force_arena = False and tls_cpuid = 0 and sc = ?sc and j = 0 and cpu' = 0
      and evs = "[ShardTryLock 0 True]" and exact = 2048 and func = "arena_Allocate TestArena 13"
      and size_shift = 3 and ?st0.0 = fresh and block_size = 4096 and huge_page_size = 0
      and rs = inline_run and tls = "\<lambda>t. 0" and blocks = "[(4096, 13), (4112, 24)]"
      and tls' = "\<lambda>t. 0" and st' = after_13_24]
  have pre: "\<not> (shard_block_size fresh div 4 < 13 \<or> False \<or>
        (0::size_t) = 0 \<and> allocated_and_unused (AccessAtCore (shards fresh) 0) = 0 \<and>
        arena_try_lock ?sc)"
    "allocated_and_unused (AccessAtCore (shards fresh) 0) < 13"
    "2048 = arena_allocated_and_unused fresh"
    "2048 = arena_AllocatedAndUnused TestArena (arena fresh)"
    "arena_IsInInlineBlock TestArena (arena fresh)"
    by (simp_all add: fresh_eq AccessAtCore_def replicate_8 Shard_ctor_def TestArena_def)
  have one: "snd (AllocateImpl TestArena ?sc 13 False (arena_Allocate TestArena 13) 0 fresh) =
      Inr (4096, 0, after_13)"
    using th pre pick_fresh_0 by (simp add: ta_alloc_13 after_13_def)
  have two: "shards after_13_24 = shards fresh \<and>
      (\<forall>s\<in>set (shards after_13_24). allocated_and_unused s = 0 \<and> free_begin s = 0)"
    using th inline_run_result inline_run_stays by (simp add: fresh_def)
  from one two inline_run_result inline_run_stays show ?thesis
    by (simp add: list_all_iff)
qed

section \<open>Word alignment\<close>

lemma word_aligned_dvd: "word_aligned p \<longleftrightarrow> 8 dvd unat p"
  by (simp add: word_aligned_def sizeof_void_ptr_def word_eq_iff_unsigned [where ?'a = nat]
      unat_mod mod_eq_0_iff_dvd)

lemma word_aligned_add:
  assumes "word_aligned p" and "bytes mod sizeof_void_ptr = 0"
  shows "word_aligned (p + bytes)"
proof -
  have b: "8 dvd unat bytes"
    using assms(2) by (simp add: word_aligned_dvd [unfolded word_aligned_def])
  have "(8::nat) dvd 2 ^ 64" by simp
  then have "8 dvd (unat p + unat bytes) mod 2 ^ 64 \<longleftrightarrow> 8 dvd unat p + unat bytes"
    by (rule dvd_mod_iff)
  then show ?thesis
    using assms(1) b by (simp add: word_aligned_dvd unat_word_ariths)
qed

lemma word_aligned_0: "word_aligned 0"
  by (simp add: word_aligned_def)

lemma bump_aligned:
  assumes "word_aligned (free_begin s)"
  shows "word_aligned (free_begin (snd (bump s avail bytes)))"
    and "bytes mod sizeof_void_ptr = 0 \<Longrightarrow> word_aligned (fst (bump s avail bytes))"
  using assms by (simp_all add: bump_eq word_aligned_add)

lemma list_all_update:
  assumes "list_all P xs" and "P y"
  shows "list_all P (xs[j := y])"
  using assms by (auto simp: list_all_iff dest: set_update_subset_insert [THEN subsetD])

lemma shards_aligned_ctor:
  "shards_aligned (ConcurrentArena_ctor A size_shift block_size huge_page_size)"
  by (simp add: shards_aligned_def shards_ctor list_all_iff Shard_ctor_def word_aligned_0)

lemma AllocateImpl_aligned:
  assumes r: "snd (AllocateImpl A sc bytes force_arena func tls_cpuid st) = Inr (rv, cpu', st')"
    and al: "arena_aligned A" and ok: "slots_ok (shards st)" and inv: "shards_aligned st"
  shows "shards_aligned st'"
    and "bytes mod sizeof_void_ptr = 0 \<Longrightarrow>
         word_aligned rv \<or> (\<exists>a. func (arena st) = Some (rv, a))"
proof -
  have "shards_aligned st' \<and>
     (bytes mod sizeof_void_ptr = 0 \<longrightarrow> word_aligned rv \<or> (\<exists>a. func (arena st) = Some (rv, a)))"
    using r
  proof (cases rule: AllocateImpl_cases)
    case (direct a)
    with inv show ?thesis by (auto simp: shards_aligned_def Fixup_def)
  next
    case (inline j evs a)
    with inv show ?thesis by (auto simp: shards_aligned_def Fixup_def)
  next
    case (from_window j evs)
    have j: "j < length (shards st)" using ok from_window(2) by (rule pick_shard_in_range)
    with inv have a: "word_aligned (free_begin (shards st ! j))"
      by (simp add: shards_aligned_def list_all_length)
    show ?thesis
      using inv bump_aligned [OF a] from_window(4,5)
      by (simp add: shards_aligned_def list_all_update)
  next
    case (from_refill j evs p a w)
    from al from_refill(7) have a: "word_aligned (free_begin \<lparr>free_begin = p, allocated_and_unused = w\<rparr>)"
      unfolding arena_aligned_def by simp blast
    show ?thesis
      using inv bump_aligned [OF a] from_refill(8,9)
      by (simp add: shards_aligned_def list_all_update Fixup_def)
  qed
  then show "shards_aligned st'"
    and "bytes mod sizeof_void_ptr = 0 \<Longrightarrow>
         word_aligned rv \<or> (\<exists>a. func (arena st) = Some (rv, a))"
    by simp_all
qed

lemma run_aligned:
  assumes "run A rs tls st = Inr (blocks, tls', st')"
    and "arena_aligned A" and "slots_ok (shards st)" and "shards_aligned st"
  shows "shards_aligned st' \<and> slots_ok (shards st')"
  using assms
proof (induction rs arbitrary: tls st blocks)
  case Nil
  then show ?case by simp
next
  case (Cons r rs)
  from Cons.prems(1) obtain rv cpu st1 bs where
    step: "snd (do_call A (req_sched r) (req_call r) (tls (req_thread r)) st) = Inr (rv, cpu, st1)"
    and rest: "run A rs (tls(req_thread r := cpu)) st1 = Inr (bs, tls', st')"
    by (auto split: sum.splits)
  from step obtain bytes force_arena func where
    impl: "snd (AllocateImpl A (req_sched r) bytes force_arena func (tls (req_thread r)) st) = Inr (rv, cpu, st1)"
    by (rule do_call_cases)
  have ok1: "slots_ok (shards st1)"
    using AllocateImpl_length [OF impl] Cons.prems(3) by (simp add: slots_ok_def)
  have al1: "shards_aligned st1"
    using impl Cons.prems(2,3,4) by (rule AllocateImpl_aligned(1))
  show ?case
    using rest Cons.prems(2) ok1 al1 by (rule Cons.IH)
qed

section \<open>A run that opens a window\<close>

lemma after_2000_eq:
  "after_2000 = \<lparr>shard_block_size = 512, shards = replicate 8 Shard_ctor,
     arena = \<lparr>ta_next = 6096, ta_unused = 48, ta_inline = True,
         ta_block_size = 4096, ta_allocated = 2048, ta_irregular = 0\<rparr>,
     arena_allocated_and_unused = 48, memory_allocated_bytes = 2048,
     irregular_block_num = 0\<rparr>"
  by (simp add: after_2000_def fresh_eq Fixup_def TestArena_def)

lemma after_2000_64_eq:
  "after_2000_64 = \<lparr>shard_block_size = 512,
     shards = (replicate 8 Shard_ctor)[0 := \<lparr>free_begin = 6208, allocated_and_unused = 448\<rparr>],
     arena = \<lparr>ta_next = 6656, ta_unused = 3584, ta_inline = False,
         ta_block_size = 4096, ta_allocated = 6144, ta_irregular = 0\<rparr>,
     arena_allocated_and_unused = 3584, memory_allocated_bytes = 6144,
     irregular_block_num = 0\<rparr>"
  by (simp add: after_2000_64_def after_2000_eq Fixup_def TestArena_def)

lemma ta_alloc_2000:
  "arena_Allocate TestArena 2000 (arena fresh) =
     Some (4096, \<lparr>ta_next = 6096, ta_unused = 48, ta_inline = True,
         ta_block_size = 4096, ta_allocated = 2048, ta_irregular = 0\<rparr>)"
  by (simp add: fresh_eq TestArena_def ta_alloc_def Let_def)

lemma ta_alloc_512:
  "arena_AllocateAligned TestArena 512 0 (arena after_2000) =
     Some (6144, \<lparr>ta_next = 6656, ta_unused = 3584, ta_inline = False,
         ta_block_size = 4096, ta_allocated = 6144, ta_irregular = 0\<rparr>)"
  by (simp add: after_2000_eq TestArena_def ta_alloc_def Let_def)

lemma step_2000:
  "snd (Allocate TestArena busy 2000 0 fresh) = Inr (4096, 0, after_2000)"
proof -
  have "snd (AllocateImpl TestArena busy 2000 False (arena_Allocate TestArena 2000) 0 fresh) =
        call_func TestArena (arena_Allocate TestArena 2000) 0 fresh"
    by (rule AllocateImpl_direct) (simp add: fresh_eq)
  also have "\<dots> = Inr (4096, 0, after_2000)"
    by (simp add: call_func_def ta_alloc_2000 after_2000_def)
  finally show ?thesis by (simp add: Allocate_def)
qed

lemma not_direct_64:
  "\<not> (shard_block_size after_2000 div 4 < 64 \<or> False \<or>
      (0::size_t) = 0 \<and> allocated_and_unused (AccessAtCore (shards after_2000) 0) = 0 \<and>
      arena_try_lock busy)"
  by (simp add: after_2000_eq busy_def)

lemma pick_after_2000: "pick_shard busy 0 after_2000 = (0, 0, [ShardTryLock 0 True])"
  by (simp add: pick_shard_def busy_def)

lemma step_64:
  "snd (Allocate TestArena busy 64 0 after_2000) = Inr (6144, 0, after_2000_64)"
proof -
  have "snd (AllocateImpl TestArena busy 64 False (arena_Allocate TestArena 64) 0 after_2000) =
        snd (shard_path TestArena busy 64 (arena_Allocate TestArena 64) 0 after_2000)"
    using not_direct_64 by (rule AllocateImpl_shard)
  also have "\<dots> = Inr (6144, 0, after_2000_64)"
    by (subst shard_path_refill [OF pick_after_2000, where w = 512 and p = 6144 and
          a = "\<lparr>ta_next = 6656, ta_unused = 3584, ta_inline = False,
         ta_block_size = 4096, ta_allocated = 6144, ta_irregular = 0\<rparr>"])
      (simp_all add: ta_alloc_512 after_2000_64_def bump_eq sizeof_void_ptr_def,
       simp_all add: after_2000_eq replicate_8 Shard_ctor_def TestArena_def window_size_def)
  finally show ?thesis by (simp add: Allocate_def)
qed

lemma step_13_tail:
  "snd (Allocate TestArena busy 13 0 after_2000_64) = Inr (6643, 0, after_2000_64_13)"
proof -
  have p: "pick_shard busy 0 after_2000_64 = (0, 0, [ShardTryLock 0 True])"
    by (simp add: pick_shard_def busy_def)
  have "snd (AllocateImpl TestArena busy 13 False (arena_Allocate TestArena 13) 0 after_2000_64) =
        snd (shard_path TestArena busy 13 (arena_Allocate TestArena 13) 0 after_2000_64)"
    by (rule AllocateImpl_shard)
      (simp add: after_2000_64_eq AccessAtCore_def replicate_8)
  also have "\<dots> = Inr (6643, 0, after_2000_64_13)"
    by (subst shard_path_hit [OF p])
      (simp_all add: after_2000_64_13_def bump_eq sizeof_void_ptr_def,
       simp_all add: after_2000_64_eq replicate_8)
  finally show ?thesis by (simp add: Allocate_def)
qed

lemma tls_const: "((\<lambda>t::nat. 0 :: size_t)(0 := 0)) = (\<lambda>t. 0)"
  by auto

lemma mixed_run_result:
  "run TestArena mixed_run (\<lambda>t. 0) fresh =
     Inr ([(4096, 2000), (6144, 64), (6643, 13)], (\<lambda>t. 0), after_2000_64_13)"
  by (simp add: mixed_run_def step_2000 step_64 step_13_tail tls_const)

lemma ta_aligned: "arena_aligned TestArena"
proof -
  have "word_aligned (of_nat (m div 8 * 8))" for m :: nat
  proof -
    have u: "unat (of_nat (m div 8 * 8) :: size_t) = (m div 8 * 8) mod 2 ^ 64"
      by (simp only: unat_of_nat) simp
    have "(8::nat) dvd 2 ^ 64" by simp
    then have "8 dvd (m div 8 * 8) mod 2 ^ 64 \<longleftrightarrow> 8 dvd m div 8 * 8"
      by (rule dvd_mod_iff)
    then show ?thesis unfolding word_aligned_dvd u by simp
  qed
  then show ?thesis
    by (auto simp: arena_aligned_def TestArena_def ta_alloc_def Let_def split: if_splits)
qed

lemma first_request_result:
  "run TestArena [\<lparr>req_thread = 0, req_call = CallAllocate 2000, req_sched = busy\<rparr>]
     (\<lambda>t. 0) fresh = Inr ([(4096, 2000)], (\<lambda>t. 0), after_2000)"
  by (simp add: step_2000 tls_const)

lemma ta_alloc_16_after_13:
  "arena_Allocate TestArena 16 (arena after_13) =
     Some (4109, \<lparr>ta_next = 4125, ta_unused = 2019, ta_inline = True,
         ta_block_size = 4096, ta_allocated = 2048, ta_irregular = 0\<rparr>)"
  by (simp add: after_13_eq TestArena_def ta_alloc_def Let_def)

lemma pick_after_13: "pick_shard busy 0 after_13 = (0, 0, [ShardTryLock 0 True])"
  by (simp add: pick_shard_def busy_def)

lemma step_16:
  "Allocate TestArena busy 16 0 after_13 =
     ([ArenaTryLock False, ShardTryLock 0 True, ArenaLock, ArenaUnlock, ShardUnlock 0],
      Inr (4109, 0,
        \<lparr>shard_block_size = 512, shards = replicate 8 Shard_ctor,
         arena = \<lparr>ta_next = 4125, ta_unused = 2019, ta_inline = True,
           ta_block_size = 4096, ta_allocated = 2048, ta_irregular = 0\<rparr>,
         arena_allocated_and_unused = 2019, memory_allocated_bytes = 2048,
         irregular_block_num = 0\<rparr>))"
proof -
  have sp: "shard_path TestArena busy 16 (arena_Allocate TestArena 16) 0 after_13 =
     ([ShardTryLock 0 True] @ [ArenaLock, ArenaUnlock, ShardUnlock 0],
      call_func TestArena (arena_Allocate TestArena 16) 0 after_13)"
    by (rule shard_path_inline [OF pick_after_13])
      (simp_all add: after_13_eq replicate_8 Shard_ctor_def TestArena_def)
  have cf: "call_func TestArena (arena_Allocate TestArena 16) 0 after_13 =
      Inr (4109, 0,
        \<lparr>shard_block_size = 512, shards = replicate 8 Shard_ctor,
         arena = \<lparr>ta_next = 4125, ta_unused = 2019, ta_inline = True,
           ta_block_size = 4096, ta_allocated = 2048, ta_irregular = 0\<rparr>,
         arena_allocated_and_unused = 2019, memory_allocated_bytes = 2048,
         irregular_block_num = 0\<rparr>)"
    by (simp add: call_func_def ta_alloc_16_after_13) (simp add: after_13_eq Fixup_def TestArena_def)
  have "AllocateImpl TestArena busy 16 False (arena_Allocate TestArena 16) 0 after_13 =
     (ArenaTryLock False # fst (shard_path TestArena busy 16 (arena_Allocate TestArena 16) 0 after_13),
      snd (shard_path TestArena busy 16 (arena_Allocate TestArena 16) 0 after_13))"
  proof -
    have c1: "\<not> shard_block_size after_13 div 4 < 16"
      and c2: "allocated_and_unused (AccessAtCore (shards after_13) 0) = 0"
      and c3: "\<not> arena_try_lock busy"
      by (simp_all add: after_13_eq busy_def AccessAtCore_def replicate_8 Shard_ctor_def)
    show ?thesis
      by (simp add: AllocateImpl_def case_prod_unfold Let_def c1 c2 c3)
  qed
  then show ?thesis by (simp add: Allocate_def sp cf)
qed

lemma after_13_reached:
  "run TestArena [\<lparr>req_thread = 0, req_call = CallAllocate 13, req_sched = busy\<rparr>]
     (\<lambda>t. 0) fresh = Inr ([(4096, 13)], (\<lambda>t. 0), after_13)"
  using step_13 by (simp add: busy_def tls_const)

lemma not_aligned_4109: "\<not> word_aligned 4109"
  by (simp add: word_aligned_def sizeof_void_ptr_def)

text \<open>
  Claim C8, as amended. In a state reached from the constructor by any sequence of
  calls, take a request whose size is a multiple of the word size and which takes
  the shard path. The free-pointer of every shard is word-aligned before and after
  the call: it starts as the null pointer, a refill sets it to the result of the
  arena's aligned allocation, and only requests of a multiple of the word size
  advance it. When the shard has the room, the pointer returned is its free-pointer.
  When the request is served from the shard's window, the old one or a new one, the
  pointer returned is word-aligned. When it is served by the inline-block shortcut of
  lines 176 to 188 instead, the pointer returned is the one that the allocation
  function of the arena passed to \<^verbatim>\<open>AllocateImpl\<close> returns, and the shards
  stay as they are; nothing is said of the alignment of that pointer.
\<close>

theorem shard_pointer_word_aligned:
  assumes al: "arena_aligned A" and k: "size_shift < 64"
    and reach: "run A rs tls (ConcurrentArena_ctor A size_shift block_size huge_page_size) =
                  Inr (blocks, tls', st)"
    and mult: "bytes mod sizeof_void_ptr = 0"
    and shard: "\<not> (shard_block_size st div 4 < bytes \<or> force_arena \<or>
        tls_cpuid = 0 \<and> allocated_and_unused (AccessAtCore (shards st) 0) = 0 \<and>
        arena_try_lock sc)"
    and pick: "pick_shard sc tls_cpuid st = (j, cpu', evs)"
    and r: "snd (AllocateImpl A sc bytes force_arena func tls_cpuid st) = Inr (rv, c, st')"
  shows "list_all (\<lambda>s. word_aligned (free_begin s)) (shards st) \<and>
         list_all (\<lambda>s. word_aligned (free_begin s)) (shards st') \<and>
         (bytes \<le> allocated_and_unused (AccessAtCore (shards st) j) \<longrightarrow>
            rv = free_begin (AccessAtCore (shards st) j)) \<and>
         (if allocated_and_unused (AccessAtCore (shards st) j) < bytes \<and>
             bytes \<le> arena_allocated_and_unused st \<and> arena_IsInInlineBlock A (arena st)
          then func (arena st) = Some (rv, arena st') \<and> shards st' = shards st
          else word_aligned rv)"
proof -
  let ?st0 = "ConcurrentArena_ctor A size_shift block_size huge_page_size"
  let ?cut = "allocated_and_unused (shards st ! j) < bytes \<and>
             bytes \<le> arena_allocated_and_unused st \<and> arena_IsInInlineBlock A (arena st)"
  have inv: "shards_aligned st" and ok: "slots_ok (shards st)"
    using run_aligned [OF reach al slots_ok_ctor [OF k] shards_aligned_ctor] by simp_all
  have inv': "shards_aligned st'"
    using r al ok inv by (rule AllocateImpl_aligned(1))
  have j: "j < length (shards st)" using ok pick by (rule pick_shard_in_range)
  have a: "word_aligned (free_begin (shards st ! j))"
    using inv j by (simp add: shards_aligned_def list_all_length)
  have "(bytes \<le> allocated_and_unused (shards st ! j) \<longrightarrow> rv = free_begin (shards st ! j)) \<and>
     (if ?cut then func (arena st) = Some (rv, arena st') \<and> shards st' = shards st
      else word_aligned rv)"
    using r
  proof (cases rule: AllocateImpl_cases)
    case (direct a)
    with shard show ?thesis by simp
  next
    case (inline i evs' a)
    from pick inline(2) have "i = j" by simp
    with inline(3,4,5,6,7,8) show ?thesis by (auto simp: Fixup_def)
  next
    case (from_window i evs')
    with pick have "i = j" by simp
    with from_window(3,4) bump_aligned(2) [OF a mult] mult show ?thesis
      by (auto simp: bump_eq)
  next
    case (from_refill i evs' p a' w)
    from al from_refill(7) have "word_aligned (free_begin \<lparr>free_begin = p, allocated_and_unused = w\<rparr>)"
      unfolding arena_aligned_def by simp blast
    moreover from pick from_refill(2) have ij: "i = j" by simp
    ultimately show ?thesis
      using bump_aligned(2) [OF _ mult] from_refill(3,5,8) by auto
  qed
  with inv inv' show ?thesis
    by (simp add: shards_aligned_def AccessAtCore_def)
qed

theorem shard_pointer_word_aligned_witness:
  "arena_aligned TestArena \<and>
   run TestArena [\<lparr>req_thread = 0, req_call = CallAllocate 2000, req_sched = busy\<rparr>]
     (\<lambda>t. 0) fresh = Inr ([(4096, 2000)], (\<lambda>t. 0), after_2000) \<and>
   (64::size_t) mod sizeof_void_ptr = 0 \<and>
   snd (AllocateImpl TestArena busy 64 False (arena_Allocate TestArena 64) 0 after_2000) =
     Inr (6144, 0, after_2000_64) \<and>
   word_aligned 6144 \<and>
   list_all (\<lambda>s. word_aligned (free_begin s)) (shards after_2000_64)"
proof -
  have mult: "(64::size_t) mod sizeof_void_ptr = 0"
    by (simp add: sizeof_void_ptr_def)
  have window: "\<not> (allocated_and_unused (AccessAtCore (shards after_2000) 0) < 64 \<and>
        64 \<le> arena_allocated_and_unused after_2000 \<and>
        arena_IsInInlineBlock TestArena (arena after_2000))"
    by (simp add: after_2000_eq)
  have r: "snd (AllocateImpl TestArena busy 64 False (arena_Allocate TestArena 64) 0 after_2000) =
     Inr (6144, 0, after_2000_64)"
    using step_64 by (simp add: Allocate_def)
  show ?thesis
    using shard_pointer_word_aligned [OF ta_aligned _ first_request_result [unfolded fresh_def]
        mult not_direct_64 pick_after_2000 r]
      ta_aligned first_request_result mult r window
    by simp
qed

text \<open>
  Claim C8 as stated fails for the inline-block shortcut, which is part of the shard
  path: after a first request of 13 bytes, a thread that finds the arena mutex busy
  asks \<^verbatim>\<open>Allocate\<close> for 16 bytes, a multiple of the word size. The call locks the
  mutex of shard 0, finds the shard empty and the arena in its inline block with room
  for the request, and returns what \<^verbatim>\<open>arena_.Allocate(16)\<close> returns: the address
  4109, which is not word-aligned.
\<close>

theorem shard_pointer_word_aligned_counterexample:
  "arena_aligned TestArena \<and>
   run TestArena [\<lparr>req_thread = 0, req_call = CallAllocate 13, req_sched = busy\<rparr>]
     (\<lambda>t. 0) fresh = Inr ([(4096, 13)], (\<lambda>t. 0), after_13) \<and>
   (16::size_t) mod sizeof_void_ptr = 0 \<and>
   Allocate TestArena busy 16 0 after_13 =
     ([ArenaTryLock False, ShardTryLock 0 True, ArenaLock, ArenaUnlock, ShardUnlock 0],
      Inr (4109, 0,
        \<lparr>shard_block_size = 512, shards = replicate 8 Shard_ctor,
         arena = \<lparr>ta_next = 4125, ta_unused = 2019, ta_inline = True,
           ta_block_size = 4096, ta_allocated = 2048, ta_irregular = 0\<rparr>,
         arena_allocated_and_unused = 2019, memory_allocated_bytes = 2048,
         irregular_block_num = 0\<rparr>)) \<and>
   \<not> word_aligned 4109"
  using ta_aligned after_13_reached step_16 not_aligned_4109
  by (simp add: sizeof_void_ptr_def)

section \<open>No aliasing\<close>

lemma byte_range_seg: "byte_range p n = seg p 0 (unat n)"
  by (simp add: byte_range_def seg_def lessThan_atLeast0)

lemma seg_shift: "seg (p + of_nat m) lo hi = seg p (m + lo) (m + hi)"
proof (intro equalityI subsetI)
  fix x assume "x \<in> seg (p + of_nat m) lo hi"
  then obtain k where k: "lo \<le> k" "k < hi" "x = p + of_nat m + of_nat k"
    by (auto simp: seg_def)
  then have "x = p + of_nat (m + k)" "m + lo \<le> m + k" "m + k < m + hi"
    by simp_all
  then show "x \<in> seg p (m + lo) (m + hi)"
    unfolding seg_def by (intro image_eqI [of _ _ "m + k"]) simp_all
next
  fix x assume "x \<in> seg p (m + lo) (m + hi)"
  then obtain k where k: "m + lo \<le> k" "k < m + hi" "x = p + of_nat k"
    by (auto simp: seg_def)
  then have "x = p + of_nat m + of_nat (k - m)"
    by (simp add: add.assoc flip: of_nat_add)
  moreover have "lo \<le> k - m" "k - m < hi" using k by simp_all
  ultimately show "x \<in> seg (p + of_nat m) lo hi"
    unfolding seg_def by (intro image_eqI [of _ _ "k - m"]) simp_all
qed

lemma seg_mono: "lo' \<le> lo \<Longrightarrow> hi \<le> hi' \<Longrightarrow> seg p lo hi \<subseteq> seg p lo' hi'"
  by (auto simp: seg_def)

lemma of_nat_inj_size_t:
  assumes "m < 2 ^ 64" "n < 2 ^ 64" "(of_nat m :: size_t) = of_nat n"
  shows "m = n"
  using assms by (simp add: word_of_nat_eq_iff take_bit_nat_eq_self)

lemma seg_disjoint:
  assumes "hi \<le> lo'" and "hi' \<le> 2 ^ 64"
  shows "seg p lo hi \<inter> seg p lo' hi' = {}"
proof -
  have False if "k < hi" "lo' \<le> k'" "k' < hi'" "p + of_nat k = p + of_nat k'" for k k'
  proof -
    from that(4) have "(of_nat k :: size_t) = of_nat k'" by simp
    moreover have "k < 2 ^ 64" "k' < 2 ^ 64" using that assms by simp_all
    ultimately have "k = k'" by (intro of_nat_inj_size_t)
    with that assms show False by simp
  qed
  then show ?thesis by (auto simp: seg_def)
qed

lemma unat_le_2p64: "unat (x::size_t) \<le> 2 ^ 64"
  using unsigned_less [of x, where 'a = nat] by simp

lemma bump_split:
  assumes le: "bytes \<le> avail"
  shows "byte_range (fst (bump s avail bytes)) bytes \<subseteq> byte_range (free_begin s) avail"
    and "window (snd (bump s avail bytes)) \<subseteq> byte_range (free_begin s) avail"
    and "byte_range (fst (bump s avail bytes)) bytes \<inter> window (snd (bump s avail bytes)) = {}"
proof -
  let ?a = "unat avail" and ?b = "unat bytes" and ?p = "free_begin s"
  have ba: "?b \<le> ?a" using le by (simp add: word_le_nat_alt)
  have d: "unat (avail - bytes) = ?a - ?b" using le by (simp add: unat_sub)
  have a64: "?a \<le> 2 ^ 64" by (rule unat_le_2p64)
  have b: "?p + bytes = ?p + of_nat ?b" by simp
  have "avail - bytes = of_nat (unat (avail - bytes))" by simp
  also have "\<dots> = of_nat (?a - ?b)" by (simp only: d)
  finally have t: "?p + avail - bytes = ?p + of_nat (?a - ?b)"
    by (simp add: add_diff_eq)
  have front: "byte_range ?p bytes = seg ?p 0 ?b"
    and rest_front: "byte_range (?p + bytes) (avail - bytes) = seg ?p ?b ?a"
    and tail: "byte_range (?p + avail - bytes) bytes = seg ?p (?a - ?b) ?a"
    and rest_tail: "byte_range ?p (avail - bytes) = seg ?p 0 (?a - ?b)"
    and whole: "byte_range ?p avail = seg ?p 0 ?a"
    using ba by (simp_all only: b t byte_range_seg seg_shift d) simp_all
  show "byte_range (fst (bump s avail bytes)) bytes \<subseteq> byte_range (free_begin s) avail"
    using ba by (simp add: bump_eq front tail whole seg_mono)
  show "window (snd (bump s avail bytes)) \<subseteq> byte_range (free_begin s) avail"
    using ba by (simp add: bump_eq window_def rest_front rest_tail whole seg_mono)
  show "byte_range (fst (bump s avail bytes)) bytes \<inter> window (snd (bump s avail bytes)) = {}"
    using seg_disjoint [of ?b ?b ?a ?p 0] seg_disjoint [of "?a - ?b" "?a - ?b" ?a ?p 0] a64
    by (auto simp: bump_eq window_def front tail rest_front rest_tail)
qed

lemma no_aliasing_arena:
  assumes inv: "no_aliasing F st G"
    and fresh: "R \<inter> F (arena st) = {}" and grow: "F (arena st) \<union> R \<subseteq> F a"
    and st': "arena st' = a" "shards st' = shards st"
  shows "R \<inter> G = {} \<and> no_aliasing F st' (G \<union> R)"
proof -
  from inv have G: "G \<subseteq> F (arena st)"
    and W: "\<And>i. i < length (shards st) \<Longrightarrow> window (shards st ! i) \<subseteq> F (arena st)"
    and WG: "\<And>i. i < length (shards st) \<Longrightarrow> window (shards st ! i) \<inter> G = {}"
    and WW: "\<And>i j. i < length (shards st) \<Longrightarrow> j < length (shards st) \<Longrightarrow> i \<noteq> j \<Longrightarrow>
              window (shards st ! i) \<inter> window (shards st ! j) = {}"
    by (simp_all add: no_aliasing_def)
  have 1: "R \<inter> G = {}" using G fresh by blast
  have 2: "G \<union> R \<subseteq> F a" using G grow by blast
  have 3: "window (shards st ! i) \<subseteq> F a \<and> window (shards st ! i) \<inter> (G \<union> R) = {}"
    if "i < length (shards st)" for i
    using W [OF that] WG [OF that] fresh grow by blast
  show ?thesis
    using 1 2 3 WW by (simp add: no_aliasing_def st')
qed

lemma no_aliasing_update:
  assumes inv: "no_aliasing F st G" and j: "j < length (shards st)"
    and sub: "F (arena st) \<subseteq> F a"
    and X: "X \<subseteq> F a" "X \<inter> G = {}"
      "\<And>i. i < length (shards st) \<Longrightarrow> i \<noteq> j \<Longrightarrow> X \<inter> window (shards st ! i) = {}"
    and R: "R \<subseteq> X" "window s' \<subseteq> X" "R \<inter> window s' = {}"
    and st': "arena st' = a" "shards st' = (shards st)[j := s']"
  shows "R \<inter> G = {} \<and> no_aliasing F st' (G \<union> R)"
proof -
  from inv have G: "G \<subseteq> F (arena st)"
    and W: "\<And>i. i < length (shards st) \<Longrightarrow> window (shards st ! i) \<subseteq> F (arena st)"
    and WG: "\<And>i. i < length (shards st) \<Longrightarrow> window (shards st ! i) \<inter> G = {}"
    and WW: "\<And>i k. i < length (shards st) \<Longrightarrow> k < length (shards st) \<Longrightarrow> i \<noteq> k \<Longrightarrow>
              window (shards st ! i) \<inter> window (shards st ! k) = {}"
    by (simp_all add: no_aliasing_def)
  have 1: "R \<inter> G = {}" using X(2) R(1) by blast
  have 2: "G \<union> R \<subseteq> F a" using G sub X(1) R(1) by blast
  have 3: "window ((shards st)[j := s'] ! i) \<subseteq> F a \<and>
           window ((shards st)[j := s'] ! i) \<inter> (G \<union> R) = {}"
    if i: "i < length (shards st)" for i
  proof (cases "i = j")
    case True
    then show ?thesis using i X(1,2) R by (simp add: nth_list_update) blast
  next
    case False
    then show ?thesis
      using i W [OF i] WG [OF i] X(3) [OF i False] R(1) sub
      by (simp add: nth_list_update) blast
  qed
  have 4: "window ((shards st)[j := s'] ! i) \<inter> window ((shards st)[j := s'] ! k) = {}"
    if i: "i < length (shards st)" and k: "k < length (shards st)" and ne: "i \<noteq> k" for i k
  proof -
    consider "i = j" "k \<noteq> j" | "k = j" "i \<noteq> j" | "i \<noteq> j" "k \<noteq> j"
      using ne by blast
    then show ?thesis
    proof cases
      case 1
      then show ?thesis using i k X(3) [OF k] R(2) by (simp add: nth_list_update) blast
    next
      case 2
      then show ?thesis using i k X(3) [OF i] R(2) by (simp add: nth_list_update) blast
    next
      case 3
      then show ?thesis using i k WW [OF i k ne] by (simp add: nth_list_update)
    qed
  qed
  show ?thesis
    using 1 2 3 4 by (simp add: no_aliasing_def st')
qed

lemma arena_sound_func:
  assumes "arena_sound A F"
    and "func = arena_Allocate A bytes \<or> (\<exists>h. func = arena_AllocateAligned A bytes h)"
    and "func a = Some (p, a')"
  shows "byte_range p bytes \<inter> F a = {}" and "F a \<union> byte_range p bytes \<subseteq> F a'"
  using assms unfolding arena_sound_def by blast+

lemma arena_sound_window:
  assumes "arena_sound A F" and "arena_AllocateAligned A w h a = Some (p, a')"
  shows "byte_range p w \<inter> F a = {}" and "F a \<union> byte_range p w \<subseteq> F a'"
  using assms unfolding arena_sound_def by blast+

lemma AllocateImpl_no_aliasing:
  assumes r: "snd (AllocateImpl A sc bytes force_arena func tls_cpuid st) = Inr (rv, cpu', st')"
    and f: "func = arena_Allocate A bytes \<or> (\<exists>h. func = arena_AllocateAligned A bytes h)"
    and sound: "arena_sound A F"
    and ok: "slots_ok (shards st)"
    and inv: "no_aliasing F st G"
  shows "byte_range rv bytes \<inter> G = {} \<and> no_aliasing F st' (G \<union> byte_range rv bytes)"
  using r
proof (cases rule: AllocateImpl_cases)
  case (direct a)
  show ?thesis
    using inv arena_sound_func [OF sound f direct(3)]
    by (rule no_aliasing_arena) (simp_all add: direct(4) Fixup_def)
next
  case (inline j evs a)
  show ?thesis
    using inv arena_sound_func [OF sound f inline(7)]
    by (rule no_aliasing_arena) (simp_all add: inline(8) Fixup_def)
next
  case (from_window j evs)
  have j: "j < length (shards st)" using ok from_window(2) by (rule pick_shard_in_range)
  let ?s = "shards st ! j"
  let ?X = "byte_range (free_begin ?s) (allocated_and_unused ?s)"
  from inv j have X: "?X \<subseteq> F (arena st)" "?X \<inter> G = {}"
    "\<And>i. i < length (shards st) \<Longrightarrow> i \<noteq> j \<Longrightarrow> ?X \<inter> window (shards st ! i) = {}"
    by (simp_all add: no_aliasing_def window_def [symmetric])
  note bs = bump_split [OF from_window(3), of ?s]
  have "byte_range (fst (bump ?s (allocated_and_unused ?s) bytes)) bytes \<inter> G = {} \<and>
      no_aliasing F st' (G \<union> byte_range (fst (bump ?s (allocated_and_unused ?s) bytes)) bytes)"
    by (rule no_aliasing_update [OF inv j subset_refl X(1) X(2) X(3) bs(1) bs(2) bs(3)])
      (simp_all add: from_window(5))
  then show ?thesis by (simp add: from_window(4))
next
  case (from_refill j evs p a w)
  have j: "j < length (shards st)" using ok from_refill(2) by (rule pick_shard_in_range)
  have fits: "bytes \<le> w"
    unfolding from_refill(6) using from_refill(1) by (rule request_fits_window)
  note fr = arena_sound_window [OF sound from_refill(7)]
  let ?X = "byte_range p w"
  from inv have G: "G \<subseteq> F (arena st)"
    and W: "\<And>i. i < length (shards st) \<Longrightarrow> window (shards st ! i) \<subseteq> F (arena st)"
    by (simp_all add: no_aliasing_def)
  have X: "?X \<subseteq> F a" "?X \<inter> G = {}"
    "\<And>i. i < length (shards st) \<Longrightarrow> i \<noteq> j \<Longrightarrow> ?X \<inter> window (shards st ! i) = {}"
    using fr G W by blast+
  have sub: "F (arena st) \<subseteq> F a" using fr(2) by blast
  let ?s = "\<lparr>free_begin = p, allocated_and_unused = w\<rparr>"
  note bs = bump_split [OF fits, of ?s, simplified]
  have "byte_range (fst (bump ?s w bytes)) bytes \<inter> G = {} \<and>
      no_aliasing F st' (G \<union> byte_range (fst (bump ?s w bytes)) bytes)"
    by (rule no_aliasing_update [OF inv j sub X(1) X(2) X(3) bs(1) bs(2) bs(3)])
      (simp_all add: from_refill(9) Fixup_def)
  then show ?thesis by (simp add: from_refill(8))
qed

lemma byte_range_empty: "byte_range p 0 = {}"
  by (simp add: byte_range_def)

lemma no_aliasing_ctor:
  "no_aliasing F (ConcurrentArena_ctor A size_shift block_size huge_page_size) {}"
  by (simp add: no_aliasing_def shards_ctor window_def Shard_ctor_def byte_range_empty)

lemma run_no_aliasing:
  assumes "run A rs tls st = Inr (blocks, tls', st')"
    and "arena_sound A F" and "slots_ok (shards st)" and "no_aliasing F st G"
  shows "disjoint_blocks blocks \<and> list_all (\<lambda>(p, n). byte_range p n \<inter> G = {}) blocks"
  using assms
proof (induction rs arbitrary: tls st blocks G)
  case Nil
  then show ?case by simp
next
  case (Cons r rs)
  from Cons.prems(1) obtain rv cpu st1 bs where
    step: "snd (do_call A (req_sched r) (req_call r) (tls (req_thread r)) st) = Inr (rv, cpu, st1)"
    and rest: "run A rs (tls(req_thread r := cpu)) st1 = Inr (bs, tls', st')"
    and blocks: "blocks = (rv, served_bytes (req_call r)) # bs"
    by (auto split: sum.splits)
  from step obtain bytes force_arena func where
    impl: "snd (AllocateImpl A (req_sched r) bytes force_arena func (tls (req_thread r)) st) = Inr (rv, cpu, st1)"
    and b: "bytes = served_bytes (req_call r)"
    and f: "func = arena_Allocate A bytes \<or> (\<exists>h. func = arena_AllocateAligned A bytes h)"
    by (rule do_call_cases)
  let ?R = "byte_range rv bytes"
  have ok1: "slots_ok (shards st1)"
    using AllocateImpl_length [OF impl] Cons.prems(3) by (simp add: slots_ok_def)
  from AllocateImpl_no_aliasing [OF impl f Cons.prems(2,3,4)]
  have RG: "?R \<inter> G = {}" and inv1: "no_aliasing F st1 (G \<union> ?R)" by simp_all
  from Cons.IH [OF rest Cons.prems(2) ok1 inv1]
  have d: "disjoint_blocks bs" and a: "list_all (\<lambda>(p, n). byte_range p n \<inter> (G \<union> ?R) = {}) bs"
    by simp_all
  from a have a1: "list_all (\<lambda>(q, m). ?R \<inter> byte_range q m = {}) bs"
    and a2: "list_all (\<lambda>(p, n). byte_range p n \<inter> G = {}) bs"
    by (auto simp: list_all_iff)
  show ?case
    using d a1 a2 RG by (simp add: blocks b [symmetric])
qed

lemma disjoint_blocks_nth:
  assumes "disjoint_blocks bs" and "i < length bs" and "j < length bs" and "i \<noteq> j"
  shows "byte_range (fst (bs ! i)) (snd (bs ! i)) \<inter> byte_range (fst (bs ! j)) (snd (bs ! j)) = {}"
  using assms
proof (induction bs arbitrary: i j)
  case Nil
  then show ?case by simp
next
  case (Cons b bs)
  obtain p n where b: "b = (p, n)" by (cases b)
  from Cons.prems(1) have hd: "\<And>q m. (q, m) \<in> set bs \<Longrightarrow> byte_range p n \<inter> byte_range q m = {}"
    and tl: "disjoint_blocks bs"
    by (auto simp: b list_all_iff)
  have hd': "byte_range p n \<inter> byte_range (fst (bs ! k)) (snd (bs ! k)) = {}" if "k < length bs" for k
    using hd [of "fst (bs ! k)" "snd (bs ! k)"] that by simp
  show ?case
  proof (cases i)
    case 0
    with Cons.prems obtain j' where "j = Suc j'" "j' < length bs" by (cases j) auto
    with 0 hd' show ?thesis by (simp add: b)
  next
    case (Suc i')
    show ?thesis
    proof (cases j)
      case 0
      with Suc Cons.prems hd' [of i'] show ?thesis by (simp add: b Int_commute)
    next
      case (Suc j')
      with \<open>i = Suc i'\<close> Cons.prems Cons.IH [OF tl, of i' j'] show ?thesis by simp
    qed
  qed
qed

lemma ta_alloc_start:
  assumes "ta_alloc al n a = Some (p, a')"
  obtains start where "p = of_nat start" "ta_next a \<le> start" "start + unat n \<le> 2 ^ 64"
    "ta_next a' = start + unat n"
proof (cases "(if al then (ta_next a + 7) div 8 * 8 else ta_next a) - ta_next a + unat n \<le> ta_unused a")
  case True
  let ?start = "if al then (ta_next a + 7) div 8 * 8 else ta_next a"
  have "ta_next a \<le> ?start" using round_up_nat_props(1) [of "ta_next a"] by simp
  with True assms show thesis
    by (intro that [of ?start]) (auto simp: ta_alloc_def Let_def split: if_splits)
next
  case False
  let ?start = "(ta_next a + ta_unused a + 7) div 8 * 8"
  have "ta_next a + ta_unused a \<le> ?start"
    using round_up_nat_props(1) [of "ta_next a + ta_unused a"] by simp
  then have "ta_next a \<le> ?start" by simp
  with False assms show thesis
    by (intro that [of ?start]) (auto simp: ta_alloc_def Let_def split: if_splits)
qed

lemma ta_alloc_sound:
  assumes "ta_alloc al n a = Some (p, a')"
  shows "byte_range p n \<inter> ta_footprint a = {}"
    and "ta_footprint a \<union> byte_range p n \<subseteq> ta_footprint a'"
proof -
  from assms obtain start where s: "p = of_nat start" "ta_next a \<le> start"
    "start + unat n \<le> 2 ^ 64" "ta_next a' = start + unat n"
    by (rule ta_alloc_start)
  have fp: "ta_footprint b = seg 0 0 (ta_next b)" for b
    by (simp add: ta_footprint_def seg_def lessThan_atLeast0)
  have br: "byte_range p n = seg 0 start (start + unat n)"
    using seg_shift [of 0 start 0 "unat n"] by (simp add: byte_range_seg s(1))
  show "byte_range p n \<inter> ta_footprint a = {}"
    using seg_disjoint [OF s(2) s(3), of 0 0] by (simp add: fp br Int_commute)
  show "ta_footprint a \<union> byte_range p n \<subseteq> ta_footprint a'"
    using seg_mono [of 0 0 "ta_next a" "start + unat n" 0] seg_mono [of 0 start "start + unat n" "start + unat n" 0] s(2)
    by (simp add: fp br s(4))
qed

lemma ta_sound: "arena_sound TestArena ta_footprint"
  unfolding arena_sound_def using ta_alloc_sound by (simp add: TestArena_def)

lemma byte_range_mono: "n \<le> m \<Longrightarrow> byte_range p n \<subseteq> byte_range p m"
  by (auto simp: byte_range_def word_le_nat_alt)

lemma do_call_requested:
  assumes "snd (do_call A sc c tls_cpuid st) = Inr (rv, cpu', st')"
  shows "requested_bytes c \<le> served_bytes c"
  using assms by (cases c) (simp_all add: AllocateAligned_def split: if_splits)

lemma run_blocks_nth:
  assumes "run A rs tls st = Inr (blocks, tls', st')"
  shows "length blocks = length rs \<and>
         (\<forall>i<length rs. snd (blocks ! i) = served_bytes (req_call (rs ! i)) \<and>
            requested_bytes (req_call (rs ! i)) \<le> served_bytes (req_call (rs ! i)))"
  using assms
proof (induction rs arbitrary: tls st blocks)
  case Nil
  then show ?case by simp
next
  case (Cons r rs)
  from Cons.prems(1) obtain rv cpu st1 bs where
    step: "snd (do_call A (req_sched r) (req_call r) (tls (req_thread r)) st) = Inr (rv, cpu, st1)"
    and rest: "run A rs (tls(req_thread r := cpu)) st1 = Inr (bs, tls', st')"
    and blocks: "blocks = (rv, served_bytes (req_call r)) # bs"
    by (auto split: sum.splits)
  note ih = Cons.IH [OF rest]
  have "snd (blocks ! i) = served_bytes (req_call ((r # rs) ! i)) \<and>
        requested_bytes (req_call ((r # rs) ! i)) \<le> served_bytes (req_call ((r # rs) ! i))"
    if "i < length (r # rs)" for i
  proof (cases i)
    case 0
    with do_call_requested [OF step] show ?thesis by (simp add: blocks)
  next
    case (Suc k)
    with that ih show ?thesis by (simp add: blocks)
  qed
  with ih show ?case by (simp add: blocks)
qed

lemma requested_blocks_disjoint:
  assumes r: "run A rs tls st = Inr (blocks, tls', st')" and d: "disjoint_blocks blocks"
    and i: "i < length rs" and j: "j < length rs" and ne: "i \<noteq> j"
  shows "byte_range (fst (blocks ! i)) (requested_bytes (req_call (rs ! i))) \<inter>
         byte_range (fst (blocks ! j)) (requested_bytes (req_call (rs ! j))) = {}"
proof -
  note n = run_blocks_nth [OF r]
  from n i j have len: "i < length blocks" "j < length blocks" by simp_all
  have "byte_range (fst (blocks ! k)) (requested_bytes (req_call (rs ! k))) \<subseteq>
        byte_range (fst (blocks ! k)) (snd (blocks ! k))" if "k < length rs" for k
    using n that by (intro byte_range_mono) simp
  from this [OF i] this [OF j] disjoint_blocks_nth [OF d len ne] show ?thesis
    by blast
qed

text \<open>
  Claim C1. For every sequence of completed calls of \<^verbatim>\<open>Allocate\<close> and
  \<^verbatim>\<open>AllocateAligned\<close> on an instance, by any threads, on any cores and with any
  outcomes of the \<^verbatim>\<open>try_lock\<close>s, the blocks returned are pairwise disjoint, with
  the sizes handed out (rounded for \<^verbatim>\<open>AllocateAligned\<close>) and so with the sizes
  requested: no byte is returned twice. The arena is taken to hand
  out each of its own blocks once. In particular a block taken from the front of a
  shard's window and one taken from its tail never overlap: whichever end serves a
  request that fits, the capacity goes down by \<open>bytes\<close>, and the block and the window
  that remains are disjoint parts of the window before.
\<close>

theorem returned_blocks_disjoint:
  assumes sound: "arena_sound A F" and k: "size_shift < 64"
    and r: "run A rs tls (ConcurrentArena_ctor A size_shift block_size huge_page_size) =
              Inr (blocks, tls', st')"
  shows "disjoint_blocks blocks \<and>
         (\<forall>i<length blocks. \<forall>j<length blocks. i \<noteq> j \<longrightarrow>
            byte_range (fst (blocks ! i)) (snd (blocks ! i)) \<inter>
            byte_range (fst (blocks ! j)) (snd (blocks ! j)) = {}) \<and>
         length blocks = length rs \<and>
         (\<forall>i<length rs. \<forall>j<length rs. i \<noteq> j \<longrightarrow>
            byte_range (fst (blocks ! i)) (requested_bytes (req_call (rs ! i))) \<inter>
            byte_range (fst (blocks ! j)) (requested_bytes (req_call (rs ! j))) = {}) \<and>
         (\<forall>s avail bytes. bytes \<le> avail \<longrightarrow>
            allocated_and_unused (snd (bump s avail bytes)) = avail - bytes \<and>
            byte_range (fst (bump s avail bytes)) bytes \<subseteq> byte_range (free_begin s) avail \<and>
            window (snd (bump s avail bytes)) \<subseteq> byte_range (free_begin s) avail \<and>
            byte_range (fst (bump s avail bytes)) bytes \<inter> window (snd (bump s avail bytes)) = {})"
proof -
  have d: "disjoint_blocks blocks"
    using run_no_aliasing [OF r sound slots_ok_ctor [OF k] no_aliasing_ctor] by simp
  have "\<forall>s avail bytes. bytes \<le> avail \<longrightarrow>
            allocated_and_unused (snd (bump s avail bytes)) = avail - bytes \<and>
            byte_range (fst (bump s avail bytes)) bytes \<subseteq> byte_range (free_begin s) avail \<and>
            window (snd (bump s avail bytes)) \<subseteq> byte_range (free_begin s) avail \<and>
            byte_range (fst (bump s avail bytes)) bytes \<inter> window (snd (bump s avail bytes)) = {}"
    using bump_split by (simp add: bump_eq)
  moreover have "length blocks = length rs"
    using run_blocks_nth [OF r] by simp
  moreover have "\<forall>i<length rs. \<forall>j<length rs. i \<noteq> j \<longrightarrow>
            byte_range (fst (blocks ! i)) (requested_bytes (req_call (rs ! i))) \<inter>
            byte_range (fst (blocks ! j)) (requested_bytes (req_call (rs ! j))) = {}"
    using requested_blocks_disjoint [OF r d] by blast
  moreover have "\<forall>i<length blocks. \<forall>j<length blocks. i \<noteq> j \<longrightarrow>
            byte_range (fst (blocks ! i)) (snd (blocks ! i)) \<inter>
            byte_range (fst (blocks ! j)) (snd (blocks ! j)) = {}"
    using disjoint_blocks_nth [OF d] by blast
  ultimately show ?thesis using d by blast
qed

theorem returned_blocks_disjoint_witness:
  "arena_sound TestArena ta_footprint \<and>
   run TestArena mixed_run (\<lambda>t. 0) fresh =
     Inr ([(4096, 2000), (6144, 64), (6643, 13)], (\<lambda>t. 0), after_2000_64_13) \<and>
   disjoint_blocks [(4096, 2000), (6144, 64), (6643, 13)] \<and>
   byte_range 6144 64 \<inter> byte_range 6643 13 = {}"
proof -
  note th = returned_blocks_disjoint [OF ta_sound _ mixed_run_result [unfolded fresh_def]]
  have "disjoint_blocks [(4096, 2000), (6144, 64), (6643, 13 :: size_t)]"
    using th by simp
  then show ?thesis
    using ta_sound mixed_run_result by simp
qed

section \<open>Aligned allocation\<close>

lemma AllocateAligned_pointer_aligned:
  assumes al: "arena_aligned A" and ok: "slots_ok (shards st)" and inv: "shards_aligned st"
    and r: "snd (AllocateAligned A sc bytes huge_page_size tls_cpuid st) = Inr (rv, cpu', st')"
  shows "word_aligned rv"
proof -
  from r have m: "rounded_up bytes mod sizeof_void_ptr = 0"
    and impl: "snd (AllocateImpl A sc (rounded_up bytes) (huge_page_size \<noteq> 0)
        (arena_AllocateAligned A (rounded_up bytes) huge_page_size) tls_cpuid st) = Inr (rv, cpu', st')"
    by (simp_all add: AllocateAligned_def split: if_splits)
  from AllocateImpl_aligned(2) [OF impl al ok inv m]
  show ?thesis
    using al unfolding arena_aligned_def by blast
qed

lemma ta_alloc_16:
  "arena_AllocateAligned TestArena 16 0 (arena after_2000) =
     Some (6096, \<lparr>ta_next = 6112, ta_unused = 32, ta_inline = True,
         ta_block_size = 4096, ta_allocated = 2048, ta_irregular = 0\<rparr>)"
  by (simp add: after_2000_eq TestArena_def ta_alloc_def Let_def)

lemma rounded_up_13: "rounded_up 13 = 16"
  by (simp add: rounded_up_def sizeof_void_ptr_def)

lemma step_aligned_13:
  "snd (AllocateAligned TestArena busy 13 0 0 after_2000) =
     Inr (6096, 0, Fixup TestArena (after_2000\<lparr>arena := \<lparr>ta_next = 6112, ta_unused = 32,
         ta_inline = True, ta_block_size = 4096, ta_allocated = 2048, ta_irregular = 0\<rparr>\<rparr>))"
proof -
  let ?f = "arena_AllocateAligned TestArena 16 0"
  have "snd (AllocateImpl TestArena busy 16 False ?f 0 after_2000) =
        snd (shard_path TestArena busy 16 ?f 0 after_2000)"
    by (rule AllocateImpl_shard) (simp add: after_2000_eq busy_def)
  also have "\<dots> = call_func TestArena ?f 0 after_2000"
    by (subst shard_path_inline [OF pick_after_2000])
      (simp_all add: after_2000_eq replicate_8 Shard_ctor_def TestArena_def)
  also have "\<dots> = Inr (6096, 0, Fixup TestArena (after_2000\<lparr>arena := \<lparr>ta_next = 6112,
         ta_unused = 32, ta_inline = True, ta_block_size = 4096, ta_allocated = 2048,
         ta_irregular = 0\<rparr>\<rparr>))"
    by (simp add: call_func_def ta_alloc_16)
  finally show ?thesis
    by (simp add: AllocateAligned_def rounded_up_13 sizeof_void_ptr_def)
qed

text \<open>
  Claim C7, as amended. For every request size \<open>bytes\<close> with
  \<open>1 \<le> bytes < 2\<^sup>6\<^sup>4 - 8\<close>, the value
  \<open>rounded_up = ((bytes - 1) | (sizeof(void*) - 1)) + 1\<close> that
  \<^verbatim>\<open>AllocateAligned\<close> computes is the least multiple of the word size that is
  at least \<open>bytes\<close>: it is not below \<open>bytes\<close>, it is below \<open>bytes\<close> plus the word
  size (as 64-bit values and as numbers), it is a multiple of the word size, and no
  smaller multiple is at least \<open>bytes\<close>. The assertion of the source holds, and the
  allocation is delegated to \<^verbatim>\<open>AllocateImpl\<close> with the rounded size, the
  huge-page flag and the arena's aligned allocation of the rounded size. The pointer
  that the call returns, in any state reached from the constructor, is word-aligned,
  given that the arena's aligned allocation returns word-aligned pointers.
\<close>

theorem AllocateAligned_rounds_up:
  assumes "1 \<le> bytes" and "bytes < 0xFFFFFFFFFFFFFFF8"
  shows "bytes \<le> rounded_up bytes \<and>
         rounded_up bytes < bytes + sizeof_void_ptr \<and>
         unat (rounded_up bytes) < unat bytes + unat sizeof_void_ptr \<and>
         rounded_up bytes mod sizeof_void_ptr = 0 \<and>
         unat sizeof_void_ptr dvd unat (rounded_up bytes) \<and>
         (\<forall>m. unat sizeof_void_ptr dvd m \<and> unat bytes \<le> m \<longrightarrow> unat (rounded_up bytes) \<le> m) \<and>
         AllocateAligned A sc bytes huge_page_size tls_cpuid st =
           AllocateImpl A sc (rounded_up bytes) (huge_page_size \<noteq> 0)
             (arena_AllocateAligned A (rounded_up bytes) huge_page_size) tls_cpuid st \<and>
         (arena_aligned A \<and> size_shift < 64 \<and>
          run A rs tls (ConcurrentArena_ctor A size_shift block_size huge) = Inr (blocks, tls', st) \<and>
          snd (AllocateAligned A sc bytes huge_page_size tls_cpuid st) = Inr (rv, cpu', st') \<longrightarrow>
          word_aligned rv)"
proof -
  have b1: "1 \<le> unat bytes"
    using assms(1) by (simp add: word_le_nat_alt)
  have b2: "unat bytes < 18446744073709551608"
    using assms(2) by (simp add: word_less_nat_alt)
  have r: "unat (rounded_up bytes) = (unat bytes + 7) div 8 * 8"
    using b1 b2 by (intro rounded_up_unat) simp_all
  have s: "unat (bytes + 8) = unat bytes + 8"
    using b2 by (simp add: unat_word_ariths)
  have c1: "bytes \<le> rounded_up bytes"
    by (simp add: word_le_nat_alt r round_up_nat_props(1))
  have c3: "unat (rounded_up bytes) < unat bytes + unat sizeof_void_ptr"
    using round_up_nat_props(2) [of "unat bytes"] by (simp add: r sizeof_void_ptr_def)
  have c2: "rounded_up bytes < bytes + sizeof_void_ptr"
    using c3 by (simp add: word_less_nat_alt s sizeof_void_ptr_def)
  have c5: "unat sizeof_void_ptr dvd unat (rounded_up bytes)"
    by (simp add: r sizeof_void_ptr_def)
  have c4: "rounded_up bytes mod sizeof_void_ptr = 0"
    using c5 by (simp add: word_eq_iff_unsigned [where ?'a = nat] unat_mod mod_eq_0_iff_dvd)
  have c6: "\<forall>m. unat sizeof_void_ptr dvd m \<and> unat bytes \<le> m \<longrightarrow> unat (rounded_up bytes) \<le> m"
    using round_up_nat_props(4) [of _ "unat bytes"] by (simp add: r sizeof_void_ptr_def)
  have c7: "AllocateAligned A sc bytes huge_page_size tls_cpuid st =
           AllocateImpl A sc (rounded_up bytes) (huge_page_size \<noteq> 0)
             (arena_AllocateAligned A (rounded_up bytes) huge_page_size) tls_cpuid st"
    using c1 c2 c4 by (simp add: AllocateAligned_def)
  have c8: "word_aligned rv"
    if h: "arena_aligned A \<and> size_shift < 64 \<and>
          run A rs tls (ConcurrentArena_ctor A size_shift block_size huge) = Inr (blocks, tls', st) \<and>
          snd (AllocateAligned A sc bytes huge_page_size tls_cpuid st) = Inr (rv, cpu', st')"
  proof -
    from h have al: "arena_aligned A" and k: "size_shift < 64"
      and reach: "run A rs tls (ConcurrentArena_ctor A size_shift block_size huge) = Inr (blocks, tls', st)"
      and res: "snd (AllocateAligned A sc bytes huge_page_size tls_cpuid st) = Inr (rv, cpu', st')"
      by blast+
    have "shards_aligned st \<and> slots_ok (shards st)"
      using reach al slots_ok_ctor [OF k] shards_aligned_ctor by (rule run_aligned)
    then show ?thesis
      using AllocateAligned_pointer_aligned [OF al _ _ res] by blast
  qed
  from c1 c2 c3 c4 c5 c6 c7 c8 show ?thesis by blast
qed

theorem AllocateAligned_rounds_up_witness:
  "(1::size_t) \<le> 13 \<and> (13::size_t) < 0xFFFFFFFFFFFFFFF8 \<and> rounded_up 13 = 16 \<and>
   (13::size_t) \<le> rounded_up 13 \<and> rounded_up 13 < 13 + sizeof_void_ptr \<and>
   rounded_up 13 mod sizeof_void_ptr = 0 \<and>
   arena_aligned TestArena \<and>
   snd (AllocateAligned TestArena busy 13 0 0 after_2000) =
     Inr (6096, 0, Fixup TestArena (after_2000\<lparr>arena := \<lparr>ta_next = 6112, ta_unused = 32,
         ta_inline = True, ta_block_size = 4096, ta_allocated = 2048, ta_irregular = 0\<rparr>\<rparr>)) \<and>
   word_aligned 6096"
proof -
  have a: "(1::size_t) \<le> 13" "(13::size_t) < 0xFFFFFFFFFFFFFFF8" by simp_all
  note th = AllocateAligned_rounds_up [OF a, where A = TestArena and sc = busy
      and huge_page_size = 0 and tls_cpuid = 0 and st = after_2000 and size_shift = 3
      and rs = "[\<lparr>req_thread = 0, req_call = CallAllocate 2000, req_sched = busy\<rparr>]"
      and tls = "\<lambda>t. 0" and block_size = 4096 and huge = 0 and blocks = "[(4096, 2000)]"
      and tls' = "\<lambda>t. 0" and rv = 6096 and cpu' = 0]
  have "word_aligned 6096"
    using th ta_aligned first_request_result [unfolded fresh_def] step_aligned_13 by simp
  moreover have "(13::size_t) \<le> rounded_up 13 \<and> rounded_up 13 < 13 + sizeof_void_ptr \<and>
      rounded_up 13 mod sizeof_void_ptr = 0"
    using th by simp
  ultimately show ?thesis
    using ta_aligned step_aligned_13 by (simp add: rounded_up_13)
qed

text \<open>
  Claim C7 as stated fails at the top of the 64-bit range: for the request size
  \<open>2\<^sup>6\<^sup>4 - 1\<close>, which is at least 1, the sum wraps around and \<open>rounded_up\<close>
  is 0, below the request; the assertion of the source fails and nothing is
  allocated.
\<close>

theorem AllocateAligned_rounds_up_counterexample:
  "(1::size_t) \<le> 0xFFFFFFFFFFFFFFFF \<and> rounded_up 0xFFFFFFFFFFFFFFFF = 0 \<and>
   \<not> (0xFFFFFFFFFFFFFFFF \<le> rounded_up 0xFFFFFFFFFFFFFFFF) \<and>
   AllocateAligned TestArena busy 0xFFFFFFFFFFFFFFFF 0 0 fresh = ([], Inl AssertionFailed)"
  by (simp add: rounded_up_def sizeof_void_ptr_def AllocateAligned_def)

end
